theory Spec2Isabelle
  imports Main "HOL-Library.Word"
begin

unbundle bit_operations_syntax

section \<open>Data model\<close>

text \<open>
  The block node of the Outline document tree (\<^verbatim>\<open>OutlineBlockNode.js\<close>): an ordered list
  of child keys, read traversals, the mutators \<^verbatim>\<open>append\<close> and \<^verbatim>\<open>clear\<close>, and the
  normalisation pass that merges adjacent text nodes and rebases the selection.

  A node object is a record; its class (\<^verbatim>\<open>instanceof TextNode\<close>, \<^verbatim>\<open>instanceof BlockNode\<close>)
  is the constructor of its \<open>cls\<close> field, which also carries the fields of the subclass.
  \<open>OtherNode\<close> stands for every subclass of \<^verbatim>\<open>OutlineNode\<close> that is neither.
\<close>

type_synonym NodeKey = string

datatype NodeClass =
    TextNode string "string option"
  | BlockNode "NodeKey list"
  | OtherNode

record OutlineNode =
  key :: NodeKey
  parent :: "NodeKey option"
  flags :: nat
  cls :: NodeClass

record Selection =
  anchorKey :: NodeKey
  anchorOffset :: nat
  focusKey :: NodeKey
  focusOffset :: nat
  isDirty :: bool

text \<open>
  The module state every function of the file reads through its imports: the registry, the
  set of dirty subtrees and the set of nodes cloned for writing in this transaction, all of
  the active view model (\<^verbatim>\<open>getActiveViewModel\<close>), the selection (\<^verbatim>\<open>getSelection\<close>) and
  the read-only gate (\<^verbatim>\<open>shouldErrorOnReadOnly\<close>). The two flag masks are constants of a
  module of the repository other than this one; they are carried in the state, so that the
  general statements hold for any value of them.
\<close>

record Env =
  nodeMap :: "NodeKey \<rightharpoonup> OutlineNode"
  dirtySubTrees :: "NodeKey set"
  clonedThisTxn :: "NodeKey set"
  selection :: "Selection option"
  isReadOnly :: bool
  IS_IMMUTABLE :: nat
  IS_SEGMENTED :: nat

datatype error = ReadOnlyViolation | InvariantViolation string | TypeError

section \<open>Collaborators of the block node\<close>

definition isTextNode :: "OutlineNode \<Rightarrow> bool" where
  "isTextNode n = (case cls n of TextNode t u \<Rightarrow> True | _ \<Rightarrow> False)"

definition isBlockNode :: "OutlineNode \<Rightarrow> bool" where
  "isBlockNode n = (case cls n of BlockNode cs \<Rightarrow> True | _ \<Rightarrow> False)"

text \<open>Field reads \<^verbatim>\<open>node.text\<close>, \<^verbatim>\<open>node.url\<close> and \<^verbatim>\<open>node.children\<close>. The source only
  performs them on objects of the class that has the field; the value given here for the
  other classes is never used on a well-typed node.\<close>

definition textOf :: "OutlineNode \<Rightarrow> string" where
  "textOf n = (case cls n of TextNode t u \<Rightarrow> t | _ \<Rightarrow> [])"

definition urlOf :: "OutlineNode \<Rightarrow> string option" where
  "urlOf n = (case cls n of TextNode t u \<Rightarrow> u | _ \<Rightarrow> None)"

definition childrenOf :: "OutlineNode \<Rightarrow> NodeKey list" where
  "childrenOf n = (case cls n of BlockNode cs \<Rightarrow> cs | _ \<Rightarrow> [])"

text \<open>Modelled from the spec: \<^verbatim>\<open>getNodeByKey\<close> of \<^verbatim>\<open>OutlineNode.js\<close>, the registry lookup
  \<open>resolve(key) -> Node | none\<close>, which reflects the latest written version.\<close>

definition getNodeByKey :: "Env \<Rightarrow> NodeKey \<Rightarrow> OutlineNode option" where
  "getNodeByKey s k = nodeMap s k"

text \<open>Modelled from the spec: \<^verbatim>\<open>getLatest\<close> of \<^verbatim>\<open>OutlineNode.js\<close>, which resolves a possibly
  stale reference to the most recent version known for its key. A reference whose key the
  registry does not know is its own most recent version.\<close>

definition getLatest :: "Env \<Rightarrow> OutlineNode \<Rightarrow> OutlineNode" where
  "getLatest s n = (case getNodeByKey s (key n) of Some m \<Rightarrow> m | None \<Rightarrow> n)"

text \<open>Modelled from the spec: \<^verbatim>\<open>getWritableNode\<close> of \<^verbatim>\<open>OutlineNode.js\<close>. The clone has the
  key and the field values of the latest version, is recorded as cloned in this transaction,
  and is what the registry resolves the key to from now on. A later assignment to a field of
  the returned object is an update of the registry entry of its key.\<close>

definition getWritableNode :: "Env \<Rightarrow> OutlineNode \<Rightarrow> Env \<times> OutlineNode" where
  "getWritableNode s n =
     (let latestNode = getLatest s n
      in (s\<lparr>nodeMap := (nodeMap s)(key n \<mapsto> latestNode),
             clonedThisTxn := insert (key n) (clonedThisTxn s)\<rparr>, latestNode))"

text \<open>Modelled from the spec: \<^verbatim>\<open>getParent\<close> of \<^verbatim>\<open>OutlineNode.js\<close>: the parent identifier of
  the latest version, resolved through the registry.\<close>

definition getParent :: "Env \<Rightarrow> OutlineNode \<Rightarrow> OutlineNode option" where
  "getParent s n = (case parent (getLatest s n) of None \<Rightarrow> None | Some p \<Rightarrow> getNodeByKey s p)"

text \<open>Modelled from the spec: \<^verbatim>\<open>shouldErrorOnReadOnly\<close> of \<^verbatim>\<open>OutlineView.js\<close>, the binary
  gate checked at the start of every mutator.\<close>

definition shouldErrorOnReadOnly :: "Env \<Rightarrow> error + unit" where
  "shouldErrorOnReadOnly s = (if isReadOnly s then Inl ReadOnlyViolation else Inr ())"

text \<open>Modelled from the spec: \<^verbatim>\<open>invariant\<close> of \<^verbatim>\<open>OutlineUtils.js\<close>, which fails loudly with
  its message when the condition is false.\<close>

definition invariant :: "bool \<Rightarrow> string \<Rightarrow> error + unit" where
  "invariant cond msg = (if cond then Inr () else Inl (InvariantViolation msg))"

text \<open>Modelled from the spec: the derived predicates \<^verbatim>\<open>isImmutable()\<close> and
  \<^verbatim>\<open>isSegmented()\<close> of the text node, each the test of one attribute of the \<open>flags\<close>
  bitset of the latest version.\<close>

definition isImmutable :: "Env \<Rightarrow> OutlineNode \<Rightarrow> bool" where
  "isImmutable s n = (flags (getLatest s n) AND IS_IMMUTABLE s \<noteq> 0)"

definition isSegmented :: "Env \<Rightarrow> OutlineNode \<Rightarrow> bool" where
  "isSegmented s n = (flags (getLatest s n) AND IS_SEGMENTED s \<noteq> 0)"

text \<open>Modelled from the spec: \<^verbatim>\<open>getTextContent()\<close> of the text node, its text content.\<close>

definition getTextContent :: "Env \<Rightarrow> OutlineNode \<Rightarrow> string" where
  "getTextContent s n = textOf (getLatest s n)"

text \<open>Assignments to one field of the object registered under a key.\<close>

definition setParent :: "NodeKey \<Rightarrow> NodeKey option \<Rightarrow> Env \<Rightarrow> Env" where
  "setParent k p s =
     (case nodeMap s k of None \<Rightarrow> s
      | Some n \<Rightarrow> s\<lparr>nodeMap := (nodeMap s)(k \<mapsto> n\<lparr>parent := p\<rparr>)\<rparr>)"

definition setChildren :: "NodeKey \<Rightarrow> NodeKey list \<Rightarrow> Env \<Rightarrow> Env" where
  "setChildren k cs s =
     (case nodeMap s k of None \<Rightarrow> s
      | Some n \<Rightarrow> s\<lparr>nodeMap := (nodeMap s)(k \<mapsto> n\<lparr>cls := BlockNode cs\<rparr>)\<rparr>)"

definition setText :: "NodeKey \<Rightarrow> string \<Rightarrow> Env \<Rightarrow> Env" where
  "setText k t s =
     (case nodeMap s k of None \<Rightarrow> s
      | Some n \<Rightarrow> s\<lparr>nodeMap := (nodeMap s)(k \<mapsto> n\<lparr>cls := TextNode t (urlOf n)\<rparr>)\<rparr>)"

text \<open>Modelled from the spec: \<^verbatim>\<open>spliceText(offset, delCount, newText)\<close> of the text node.
  The merge uses it to append a sibling's text at the accumulated length of the surviving
  node: \<open>delCount\<close> characters from \<open>offset\<close> are replaced by \<open>newText\<close> in the writable
  version of the node.\<close>

definition spliceText :: "Env \<Rightarrow> OutlineNode \<Rightarrow> nat \<Rightarrow> nat \<Rightarrow> string \<Rightarrow> error + Env" where
  "spliceText s n offset delCount newText =
     (case shouldErrorOnReadOnly s of Inl e \<Rightarrow> Inl e
      | Inr _ \<Rightarrow>
          let (s1, writableSelf) = getWritableNode s n;
              t = textOf writableSelf
          in Inr (setText (key writableSelf)
                    (take offset t @ newText @ drop (offset + delCount) t) s1))"

text \<open>Modelled from the spec: \<^verbatim>\<open>remove()\<close> of \<^verbatim>\<open>OutlineNode.js\<close>, the detach operation of a
  node, which unlinks parent pointers and registry entries: the key leaves the children list
  of the parent block (searched by key, no-op when absent, as \<^verbatim>\<open>append\<close> does for the old
  parent) and the registry forgets the node.\<close>

definition remove :: "Env \<Rightarrow> OutlineNode \<Rightarrow> error + Env" where
  "remove s n =
     (case shouldErrorOnReadOnly s of Inl e \<Rightarrow> Inl e
      | Inr _ \<Rightarrow>
          let s1 = (case getParent s n of None \<Rightarrow> s
                    | Some p \<Rightarrow>
                        (case cls p of
                           BlockNode cs \<Rightarrow> setChildren (key p) (remove1 (key n) cs) s
                         | _ \<Rightarrow> s))
          in Inr (s1\<lparr>nodeMap := (nodeMap s1)(key n := None)\<rparr>))"

text \<open>Modelled from the spec: \<^verbatim>\<open>createTextNode(text)\<close>, the factory of a fresh text node.
  The key \<open>k\<close> that the key generator of the node constructor hands out is a parameter,
  fresh when the registry does not know it. The node is registered under it,
  detached, with no attribute set and no url.\<close>

definition createTextNode :: "NodeKey \<Rightarrow> string \<Rightarrow> Env \<Rightarrow> Env \<times> OutlineNode" where
  "createTextNode k t s =
     (let n = \<lparr>key = k, parent = None, flags = 0, cls = TextNode t None\<rparr>
      in (s\<lparr>nodeMap := (nodeMap s)(k \<mapsto> n)\<rparr>, n))"

text \<open>Modelled from the spec: \<^verbatim>\<open>select(anchorOffset, focusOffset)\<close> of the text node, which
  places both ends of the active selection inside this node at the given offsets.\<close>

definition select :: "Env \<Rightarrow> OutlineNode \<Rightarrow> nat \<Rightarrow> nat \<Rightarrow> Env" where
  "select s n a f =
     s\<lparr>selection :=
         map_option (\<lambda>sel. sel\<lparr>anchorKey := key n, anchorOffset := a,
                                 focusKey := key n, focusOffset := f\<rparr>) (selection s)\<rparr>"

section \<open>Read traversals\<close>

text \<open>\<^verbatim>\<open>getChildren\<close>: the loop over the key list of the latest version, pushing every node
  that resolves.\<close>

fun getChildren_loop :: "Env \<Rightarrow> NodeKey list \<Rightarrow> OutlineNode list \<Rightarrow> OutlineNode list" where
  "getChildren_loop s [] childrenNodes = childrenNodes"
| "getChildren_loop s (k # ks) childrenNodes =
     (case getNodeByKey s k of
        None \<Rightarrow> getChildren_loop s ks childrenNodes
      | Some childNode \<Rightarrow> getChildren_loop s ks (childrenNodes @ [childNode]))"

definition getChildren :: "Env \<Rightarrow> OutlineNode \<Rightarrow> OutlineNode list" where
  "getChildren s this = (let self = getLatest s this in getChildren_loop s (childrenOf self) [])"

text \<open>
  \<^verbatim>\<open>getFirstTextNode\<close>: the loop over the resolved children. A text child is returned; for
  a block child the source returns whatever the recursive call on it returns, so the walk
  goes on inside that child and never comes back to the remaining siblings; any other
  child is passed over. The function is tail recursive in this form, and is \<open>None\<close> when
  the walk does not end (a block reachable from itself); \<open>Some None\<close> is the result
  \<^verbatim>\<open>null\<close>.
\<close>

partial_function (option) getFirstTextNode_loop ::
  "Env \<Rightarrow> OutlineNode list \<Rightarrow> OutlineNode option option" where
  "getFirstTextNode_loop s cs =
     (case cs of
        [] \<Rightarrow> Some None
      | child # rest \<Rightarrow>
          if isTextNode child then Some (Some child)
          else if isBlockNode child then getFirstTextNode_loop s (getChildren s child)
          else getFirstTextNode_loop s rest)"

definition getFirstTextNode :: "Env \<Rightarrow> OutlineNode \<Rightarrow> OutlineNode option option" where
  "getFirstTextNode s this = getFirstTextNode_loop s (getChildren s this)"

text \<open>\<^verbatim>\<open>getLastTextNode\<close>: the same walk from the last index down; the list handed to the
  loop is the children in reverse order.\<close>

partial_function (option) getLastTextNode_loop ::
  "Env \<Rightarrow> OutlineNode list \<Rightarrow> OutlineNode option option" where
  "getLastTextNode_loop s cs =
     (case cs of
        [] \<Rightarrow> Some None
      | child # rest \<Rightarrow>
          if isTextNode child then Some (Some child)
          else if isBlockNode child then getLastTextNode_loop s (rev (getChildren s child))
          else getLastTextNode_loop s rest)"

definition getLastTextNode :: "Env \<Rightarrow> OutlineNode \<Rightarrow> OutlineNode option option" where
  "getLastTextNode s this = getLastTextNode_loop s (rev (getChildren s this))"

definition getFirstChild :: "Env \<Rightarrow> OutlineNode \<Rightarrow> OutlineNode option" where
  "getFirstChild s this =
     (let self = getLatest s this;
          cs = childrenOf self;
          childrenLength = length cs
      in if childrenLength = 0 then None else getNodeByKey s (cs ! 0))"

definition getLastChild :: "Env \<Rightarrow> OutlineNode \<Rightarrow> OutlineNode option" where
  "getLastChild s this =
     (let self = getLatest s this;
          cs = childrenOf self;
          childrenLength = length cs
      in if childrenLength = 0 then None else getNodeByKey s (cs ! (childrenLength - 1)))"


section \<open>Mutators\<close>

text \<open>
  \<^verbatim>\<open>append\<close>. The three writable objects are the registry entries of their keys, so two
  of them that are one object in the source (a node appended to its own parent, or to
  itself) are one entry here. A parent that resolves to a node without a children array,
  or a receiver without one, is the \<^verbatim>\<open>TypeError\<close> of reading a property of
  \<^verbatim>\<open>undefined\<close>. The source returns the writable block; it is \<open>getLatest\<close> of the
  receiver in the state returned here. The function is named \<open>appendNode\<close>, \<open>append\<close>
  being the concatenation of lists.
\<close>

text \<open>The block under \<^verbatim>\<open>// Remove node from previous parent\<close>.\<close>

definition removeFromPreviousParent :: "Env \<Rightarrow> OutlineNode \<Rightarrow> error + Env" where
  "removeFromPreviousParent s writableNodeToAppend =
     (case getParent s writableNodeToAppend of
        None \<Rightarrow> Inr s
      | Some oldParent \<Rightarrow>
          let (s1, writableParent) = getWritableNode s oldParent
          in (case cls writableParent of
                BlockNode cs \<Rightarrow>
                  Inr (setChildren (key writableParent)
                         (remove1 (key writableNodeToAppend) cs) s1)
              | _ \<Rightarrow> Inl TypeError))"

text \<open>The check of the last child, on the children array \<open>cs\<close> of the writable block as it
  is once the node has left its old parent and before the new key is pushed.\<close>

definition markLastChild :: "Env \<Rightarrow> NodeKey list \<Rightarrow> Env" where
  "markLastChild s cs =
     (let childrenLength = length cs
      in if childrenLength > 0 then
           let lastChildKey = cs ! (childrenLength - 1)
           in (case getNodeByKey s lastChildKey of
                 None \<Rightarrow> s
               | Some lastChild \<Rightarrow>
                   if isTextNode lastChild \<and> textOf lastChild = []
                   then s\<lparr>dirtySubTrees := insert lastChildKey (dirtySubTrees s)\<rparr>
                   else s)
         else s)"

definition appendNode :: "Env \<Rightarrow> OutlineNode \<Rightarrow> OutlineNode \<Rightarrow> error + Env" where
  "appendNode s this nodeToAppend =
     (case shouldErrorOnReadOnly s of Inl e \<Rightarrow> Inl e
      | Inr _ \<Rightarrow>
          let (s1, writableSelf) = getWritableNode s this;
              (s2, writableNodeToAppend) = getWritableNode s1 nodeToAppend
          in (case removeFromPreviousParent s2 writableNodeToAppend of
                Inl e \<Rightarrow> Inl e
              | Inr s3 \<Rightarrow>
                  let s4 = setParent (key writableNodeToAppend) (Some (key writableSelf)) s3
                  in (case cls (getLatest s4 writableSelf) of
                        BlockNode cs \<Rightarrow>
                          let s5 = markLastChild s4 cs;
                              newKey = key writableNodeToAppend
                          in Inr (setChildren (key writableSelf) (cs @ [newKey]) s5)
                      | _ \<Rightarrow> Inl TypeError)))"

text \<open>\<^verbatim>\<open>children.forEach((child) => child.remove())\<close>.\<close>

fun removeEach :: "Env \<Rightarrow> OutlineNode list \<Rightarrow> error + Env" where
  "removeEach s [] = Inr s"
| "removeEach s (child # rest) =
     (case remove s child of Inl e \<Rightarrow> Inl e | Inr s1 \<Rightarrow> removeEach s1 rest)"

text \<open>\<^verbatim>\<open>clear\<close>; \<open>k\<close> is the key the text node factory hands out.\<close>

definition clear :: "Env \<Rightarrow> OutlineNode \<Rightarrow> bool \<Rightarrow> NodeKey \<Rightarrow> error + Env" where
  "clear s this restoreSelection k =
     (case shouldErrorOnReadOnly s of Inl e \<Rightarrow> Inl e
      | Inr _ \<Rightarrow>
          let (s1, writableSelf) = getWritableNode s this;
              cs = getChildren s1 this
          in (case removeEach s1 cs of Inl e \<Rightarrow> Inl e
              | Inr s2 \<Rightarrow>
                  let (s3, textNode) = createTextNode k [] s2
                  in (case appendNode s3 this textNode of Inl e \<Rightarrow> Inl e
                      | Inr s4 \<Rightarrow>
                          Inr (if restoreSelection then select s4 textNode 0 0 else s4))))"

section \<open>Normalisation\<close>

text \<open>An assignment to fields of the selection object.\<close>

definition updateSelection :: "(Selection \<Rightarrow> Selection) \<Rightarrow> Env \<Rightarrow> Env" where
  "updateSelection f s = s\<lparr>selection := map_option f (selection s)\<rparr>"

text \<open>
  The loop of \<^verbatim>\<open>combineAdjacentTextNodes\<close> from index 1. \<open>sel0\<close> holds the four values
  read from the selection before the loop (\<^verbatim>\<open>anchorOffset\<close>, \<^verbatim>\<open>focusOffset\<close>,
  \<^verbatim>\<open>anchorKey\<close>, \<^verbatim>\<open>focusKey\<close>); \<open>textLength\<close> is the running length.
\<close>

fun combine_loop ::
  "Env \<Rightarrow> bool \<Rightarrow> Selection \<Rightarrow> OutlineNode \<Rightarrow> nat \<Rightarrow> OutlineNode list \<Rightarrow> error + Env" where
  "combine_loop s restoreSelection sel0 writableMergeToNode textLength [] = Inr s"
| "combine_loop s restoreSelection sel0 writableMergeToNode textLength (textNode # rest) =
     (let siblingText = getTextContent s textNode;
          s1 = (if restoreSelection \<and> key textNode = anchorKey sel0
                then updateSelection
                       (\<lambda>sel. sel\<lparr>anchorOffset := textLength + anchorOffset sel0,
                                  anchorKey := key writableMergeToNode\<rparr>) s
                else s);
          s2 = (if restoreSelection \<and> key textNode = focusKey sel0
                then updateSelection
                       (\<lambda>sel. sel\<lparr>focusOffset := textLength + focusOffset sel0,
                                  focusKey := key writableMergeToNode\<rparr>) s1
                else s1)
      in (case spliceText s2 writableMergeToNode textLength 0 siblingText of
            Inl e \<Rightarrow> Inl e
          | Inr s3 \<Rightarrow>
              (case remove s3 textNode of
                 Inl e \<Rightarrow> Inl e
               | Inr s4 \<Rightarrow>
                   combine_loop s4 restoreSelection sel0 writableMergeToNode
                     (textLength + length siblingText) rest)))"

definition combineAdjacentTextNodes :: "Env \<Rightarrow> OutlineNode list \<Rightarrow> bool \<Rightarrow> error + Env" where
  "combineAdjacentTextNodes s textNodes restoreSelection =
     (case invariant (selection s \<noteq> None) ''combineAdjacentTextNodes: selection not found'' of
        Inl e \<Rightarrow> Inl e
      | Inr _ \<Rightarrow>
          (case textNodes of
             [] \<Rightarrow> Inl TypeError
           | first # rest \<Rightarrow>
               let sel0 = the (selection s);
                   (s1, writableMergeToNode) = getWritableNode s first;
                   textLength = length (getTextContent s1 writableMergeToNode)
               in (case combine_loop s1 restoreSelection sel0 writableMergeToNode textLength rest of
                     Inl e \<Rightarrow> Inl e
                   | Inr s2 \<Rightarrow>
                       Inr (if restoreSelection
                            then updateSelection (\<lambda>sel. sel\<lparr>isDirty := True\<rparr>) s2
                            else s2))))"

text \<open>\<^verbatim>\<open>if (toNormalize.length > 1) combineAdjacentTextNodes(toNormalize, restoreSelection)\<close>,
  which closes a batch at three places of the scan.\<close>

definition closeBatch :: "Env \<Rightarrow> OutlineNode list \<Rightarrow> bool \<Rightarrow> error + Env" where
  "closeBatch s toNormalize restoreSelection =
     (if length toNormalize > 1 then combineAdjacentTextNodes s toNormalize restoreSelection
      else Inr s)"

text \<open>
  The scan of \<^verbatim>\<open>normalizeTextNodes\<close> over the children obtained before the loop, with its
  three variables; \<^verbatim>\<open>null\<close> is \<open>None\<close> for \<open>lastTextNodeFlags\<close> and for \<open>lastURL\<close>, whose
  other values are the \<open>url\<close> fields it was assigned, themselves \<^verbatim>\<open>null\<close> or a string.
  The branch of a child that does not qualify resets \<open>lastTextNodeFlags\<close> and leaves
  \<open>lastURL\<close> as it is.
\<close>

fun normalize_loop ::
  "Env \<Rightarrow> bool \<Rightarrow> OutlineNode list \<Rightarrow> OutlineNode list \<Rightarrow> nat option \<Rightarrow> string option
     \<Rightarrow> error + Env" where
  "normalize_loop s restoreSelection [] toNormalize lastTextNodeFlags lastURL =
     closeBatch s toNormalize restoreSelection"
| "normalize_loop s restoreSelection (c # rest) toNormalize lastTextNodeFlags lastURL =
     (let child = getLatest s c;
          fl = flags child
      in if isTextNode child \<and> \<not> isImmutable s child \<and> \<not> isSegmented s child then
           let u = urlOf child
           in if (lastTextNodeFlags = None \<or> Some fl = lastTextNodeFlags) \<and>
                 (lastURL = None \<or> lastURL = u)
              then normalize_loop s restoreSelection rest (toNormalize @ [child]) (Some fl) u
              else (case closeBatch s toNormalize restoreSelection of
                      Inl e \<Rightarrow> Inl e
                    | Inr s1 \<Rightarrow> normalize_loop s1 restoreSelection rest [child] (Some fl) u)
         else (case closeBatch s toNormalize restoreSelection of
                 Inl e \<Rightarrow> Inl e
               | Inr s1 \<Rightarrow> normalize_loop s1 restoreSelection rest [] None lastURL))"

definition normalizeTextNodes :: "Env \<Rightarrow> OutlineNode \<Rightarrow> bool \<Rightarrow> error + Env" where
  "normalizeTextNodes s this restoreSelection =
     (case shouldErrorOnReadOnly s of Inl e \<Rightarrow> Inl e
      | Inr _ \<Rightarrow> normalize_loop s restoreSelection (getChildren s this) [] None None)"

section \<open>Notions used in the statements\<close>

text \<open>The registry files every node under its own key.\<close>

definition registryConsistent :: "Env \<Rightarrow> bool" where
  "registryConsistent s = (\<forall>k n. nodeMap s k = Some n \<longrightarrow> key n = k)"

text \<open>
  The scan of \<^verbatim>\<open>normalizeTextNodes\<close> with its merges left out: whether the scan, reading
  every child in the state \<open>s\<close>, reaches one of its three \<^verbatim>\<open>toNormalize.length > 1\<close>
  tests with a batch of more than one node. Up to the first such test the real scan has
  not changed the state, so this is whether the pass attempts a merge at all.
\<close>

fun scanClosesMerge ::
  "Env \<Rightarrow> OutlineNode list \<Rightarrow> OutlineNode list \<Rightarrow> nat option \<Rightarrow> string option \<Rightarrow> bool" where
  "scanClosesMerge s [] toNormalize lastTextNodeFlags lastURL = (length toNormalize > 1)"
| "scanClosesMerge s (c # rest) toNormalize lastTextNodeFlags lastURL =
     (let child = getLatest s c;
          fl = flags child
      in if isTextNode child \<and> \<not> isImmutable s child \<and> \<not> isSegmented s child then
           let u = urlOf child
           in if (lastTextNodeFlags = None \<or> Some fl = lastTextNodeFlags) \<and>
                 (lastURL = None \<or> lastURL = u)
              then scanClosesMerge s rest (toNormalize @ [child]) (Some fl) u
              else length toNormalize > 1 \<or> scanClosesMerge s rest [child] (Some fl) u
         else length toNormalize > 1 \<or> scanClosesMerge s rest [] None lastURL)"

definition selectionDirty :: "Env \<Rightarrow> bool" where
  "selectionDirty s = (case selection s of None \<Rightarrow> False | Some sel \<Rightarrow> isDirty sel)"

text \<open>The text length the surviving node \<open>first\<close> has accumulated when the node of key
  \<open>k\<close> is reached in the batch \<open>first # rest\<close>: its own length and the lengths of the nodes
  merged before that one.\<close>

definition lengthBefore :: "Env \<Rightarrow> OutlineNode \<Rightarrow> OutlineNode list \<Rightarrow> NodeKey \<Rightarrow> nat" where
  "lengthBefore s first rest k =
     length (getTextContent s first) +
     sum_list (map (\<lambda>t. length (getTextContent s t)) (takeWhile (\<lambda>t. key t \<noteq> k) rest))"

text \<open>The selection after a merge of the batch \<open>first # rest\<close> that restores the selection:
  an end that sits in a node merged away moves into the surviving node, by the length
  accumulated before that node; the other end stays; the selection is dirty.\<close>

definition rebaseSelection ::
  "Env \<Rightarrow> OutlineNode \<Rightarrow> OutlineNode list \<Rightarrow> Selection \<Rightarrow> Selection" where
  "rebaseSelection s first rest sel =
     sel\<lparr>anchorKey := (if anchorKey sel \<in> key ` set rest then key first else anchorKey sel),
         anchorOffset := (if anchorKey sel \<in> key ` set rest
                          then lengthBefore s first rest (anchorKey sel) + anchorOffset sel
                          else anchorOffset sel),
         focusKey := (if focusKey sel \<in> key ` set rest then key first else focusKey sel),
         focusOffset := (if focusKey sel \<in> key ` set rest
                         then lengthBefore s first rest (focusKey sel) + focusOffset sel
                         else focusOffset sel),
         isDirty := True\<rparr>"

text \<open>The children of the block \<open>this\<close> at the moment \<^verbatim>\<open>append\<close> looks at its last
  child: the node has left its old parent, so it is gone from the list when this block
  was that parent.\<close>

definition childrenAfterDetach :: "Env \<Rightarrow> OutlineNode \<Rightarrow> OutlineNode \<Rightarrow> NodeKey list" where
  "childrenAfterDetach s this nodeToAppend =
     (if parent (getLatest s nodeToAppend) = Some (key this)
      then remove1 (key nodeToAppend) (childrenOf (getLatest s this))
      else childrenOf (getLatest s this))"

text \<open>The key of the last of the keys \<open>ks\<close>, when it resolves to a text node with empty
  content; nothing otherwise.\<close>

definition trailingEmptyText :: "Env \<Rightarrow> NodeKey list \<Rightarrow> NodeKey set" where
  "trailingEmptyText s ks =
     (case rev ks of [] \<Rightarrow> {}
      | k # _ \<Rightarrow> (case getNodeByKey s k of None \<Rightarrow> {}
                  | Some n \<Rightarrow> if isTextNode n \<and> textOf n = [] then {k} else {}))"

text \<open>The registry once the node \<open>c\<close> has left the children of the block its parent
  identifier names.\<close>

definition detachedMap :: "Env \<Rightarrow> OutlineNode \<Rightarrow> (NodeKey \<rightharpoonup> OutlineNode)" where
  "detachedMap s c =
     (\<lambda>k. if parent c = Some k
          then map_option (\<lambda>p. p\<lparr>cls := BlockNode (remove1 (key c) (childrenOf p))\<rparr>)
                 (nodeMap s k)
          else nodeMap s k)"

text \<open>The tree invariant for one node: a block that lists the key of \<open>c\<close> among its
  children is the parent of \<open>c\<close> and lists the key once.\<close>

definition listedByParentOnly :: "Env \<Rightarrow> OutlineNode \<Rightarrow> bool" where
  "listedByParentOnly s c =
     (\<forall>k b. nodeMap s k = Some b \<longrightarrow> key c \<in> set (childrenOf b) \<longrightarrow>
            parent (getLatest s c) = Some k \<and> count_list (childrenOf b) (key c) = 1)"


section \<open>Example states\<close>

text \<open>A state with the given registry and selection, outside read-only mode and with
  nothing dirty. The two masks are given the bits 2 and 4. Nearly all nodes of the examples
  have no attribute set (\<open>flags = 0\<close>), so that the values of the masks play no part in
  them.\<close>

definition exampleEnv :: "(NodeKey \<times> OutlineNode) list \<Rightarrow> Selection option \<Rightarrow> Env" where
  "exampleEnv nodes sel =
     \<lparr>nodeMap = map_of nodes, dirtySubTrees = {}, clonedThisTxn = {}, selection = sel,
      isReadOnly = False, IS_IMMUTABLE = 2, IS_SEGMENTED = 4\<rparr>"

definition mkText :: "NodeKey \<Rightarrow> NodeKey option \<Rightarrow> string \<Rightarrow> string option \<Rightarrow> OutlineNode" where
  "mkText k p t u = \<lparr>key = k, parent = p, flags = 0, cls = TextNode t u\<rparr>"

definition mkBlock :: "NodeKey \<Rightarrow> NodeKey option \<Rightarrow> NodeKey list \<Rightarrow> OutlineNode" where
  "mkBlock k p cs = \<lparr>key = k, parent = p, flags = 0, cls = BlockNode cs\<rparr>"

text \<open>A block \<open>B\<close> whose children are an empty block and then a text node, and a block
  \<open>R\<close> whose children are a text node and then an empty block.\<close>

definition envEmptyBlockSibling :: Env where
  "envEmptyBlockSibling = exampleEnv
     [(''B'', mkBlock ''B'' None [''E'', ''T'']),
      (''E'', mkBlock ''E'' (Some ''B'') []),
      (''T'', mkText ''T'' (Some ''B'') ''a'' None),
      (''R'', mkBlock ''R'' None [''U'', ''F'']),
      (''U'', mkText ''U'' (Some ''R'') ''a'' None),
      (''F'', mkBlock ''F'' (Some ''R'') [])] None"

text \<open>A block whose first child key does not resolve and whose second does.\<close>

definition envDangling :: Env where
  "envDangling = exampleEnv
     [(''B'', mkBlock ''B'' None [''gone'', ''T'']),
      (''T'', mkText ''T'' (Some ''B'') ''a'' None)] None"

text \<open>A block with the two text children \<open>ab\<close> and \<open>cd\<close>, same flags, no url.\<close>

definition blockPair :: OutlineNode where
  "blockPair = mkBlock ''B'' None [''t1'', ''t2'']"

definition envPair :: "Selection option \<Rightarrow> Env" where
  "envPair sel = exampleEnv
     [(''B'', blockPair),
      (''t1'', mkText ''t1'' (Some ''B'') ''ab'' None),
      (''t2'', mkText ''t2'' (Some ''B'') ''cd'' None)] sel"

text \<open>A block with one text child, and no selection.\<close>

definition envSingle :: Env where
  "envSingle = exampleEnv
     [(''B'', mkBlock ''B'' None [''t1'']),
      (''t1'', mkText ''t1'' (Some ''B'') ''ab'' None)] None"

text \<open>A block with a plain text node followed by a text node that carries a url.\<close>

definition blockLink :: OutlineNode where
  "blockLink = mkBlock ''B'' None [''t1'', ''t2'']"

definition envLink :: Env where
  "envLink = exampleEnv
     [(''B'', blockLink),
      (''t1'', mkText ''t1'' (Some ''B'') ''ab'' None),
      (''t2'', mkText ''t2'' (Some ''B'') ''cd'' (Some ''u''))]
     (Some \<lparr>anchorKey = ''t1'', anchorOffset = 0, focusKey = ''t1'', focusOffset = 0,
            isDirty = False\<rparr>)"

text \<open>A block with a plain text node, a text node that carries a url, and a plain one.\<close>

definition blockLink3 :: OutlineNode where
  "blockLink3 = mkBlock ''B'' None [''t1'', ''t2'', ''t3'']"

definition envLink3 :: Env where
  "envLink3 = exampleEnv
     [(''B'', blockLink3),
      (''t1'', mkText ''t1'' (Some ''B'') ''a'' None),
      (''t2'', mkText ''t2'' (Some ''B'') ''b'' (Some ''u'')),
      (''t3'', mkText ''t3'' (Some ''B'') ''c'' None)]
     (Some \<lparr>anchorKey = ''t1'', anchorOffset = 0, focusKey = ''t1'', focusOffset = 0,
            isDirty = False\<rparr>)"

text \<open>A block whose children are an empty text node \<open>T\<close> and then a text node \<open>C\<close> with
  content; and a block whose only child is an empty text node, with a detached node \<open>D\<close>.\<close>

definition blockTrail :: OutlineNode where
  "blockTrail = mkBlock ''B'' None [''T'', ''C'']"

definition envTrail :: Env where
  "envTrail = exampleEnv
     [(''B'', blockTrail),
      (''T'', mkText ''T'' (Some ''B'') [] None),
      (''C'', mkText ''C'' (Some ''B'') ''x'' None)] None"

definition blockTrailOne :: OutlineNode where
  "blockTrailOne = mkBlock ''B'' None [''T'']"

definition envTrailOne :: Env where
  "envTrailOne = exampleEnv
     [(''B'', blockTrailOne),
      (''T'', mkText ''T'' (Some ''B'') [] None),
      (''D'', mkText ''D'' None ''x'' None)] None"

text \<open>Two blocks: \<open>A\<close> with the child \<open>C\<close>, and \<open>B\<close> with the child \<open>X\<close>.\<close>

definition envTwoBlocks :: Env where
  "envTwoBlocks = exampleEnv
     [(''A'', mkBlock ''A'' None [''C'']),
      (''B'', mkBlock ''B'' None [''X'']),
      (''C'', mkText ''C'' (Some ''A'') ''c'' None),
      (''X'', mkText ''X'' (Some ''B'') ''x'' None)] None"

text \<open>Two selections for the block with the children \<open>ab\<close> and \<open>cd\<close>: one with both ends
  in the block itself, one with the anchor between \<open>c\<close> and \<open>d\<close> and the focus after
  \<open>d\<close>.\<close>

definition selOutside :: Selection where
  "selOutside = \<lparr>anchorKey = ''B'', anchorOffset = 0, focusKey = ''B'', focusOffset = 0,
                  isDirty = False\<rparr>"

definition selSecond :: Selection where
  "selSecond = \<lparr>anchorKey = ''t2'', anchorOffset = 1, focusKey = ''t2'', focusOffset = 2,
                  isDirty = False\<rparr>"

text \<open>The block of the merge example: \<open>ab\<close> and \<open>cd\<close> with flags 0, \<open>ef\<close> with flags 1,
  and the selection anchored between \<open>c\<close> and \<open>d\<close>.\<close>

definition blockMergeExample :: OutlineNode where
  "blockMergeExample = mkBlock ''B'' None [''t1'', ''t2'', ''t3'']"

definition envMergeExample :: Env where
  "envMergeExample = exampleEnv
     [(''B'', blockMergeExample),
      (''t1'', mkText ''t1'' (Some ''B'') ''ab'' None),
      (''t2'', mkText ''t2'' (Some ''B'') ''cd'' None),
      (''t3'', (mkText ''t3'' (Some ''B'') ''ef'' None)\<lparr>flags := 1\<rparr>)]
     (Some selSecond)"

text \<open>Two runs of \<^verbatim>\<open>normalizeTextNodes\<close> in succession with nothing in between: the
  children of the block after the first run and after the second.\<close>

definition normalizeTwice ::
  "Env \<Rightarrow> OutlineNode \<Rightarrow> error + (OutlineNode list \<times> OutlineNode list)" where
  "normalizeTwice s b =
     (case normalizeTextNodes s b False of
        Inl e \<Rightarrow> Inl e
      | Inr s1 \<Rightarrow>
          (case normalizeTextNodes s1 b False of
             Inl e \<Rightarrow> Inl e
           | Inr s2 \<Rightarrow> Inr (getChildren s1 b, getChildren s2 b)))"

section \<open>Evaluation of the walks\<close>

lemma getFirstTextNode_loop_Nil: "getFirstTextNode_loop s [] = Some None"
  by (subst getFirstTextNode_loop.simps) simp

lemma getFirstTextNode_loop_Cons:
  "getFirstTextNode_loop s (child # rest) =
     (if isTextNode child then Some (Some child)
      else if isBlockNode child then getFirstTextNode_loop s (getChildren s child)
      else getFirstTextNode_loop s rest)"
  by (subst getFirstTextNode_loop.simps) simp

lemma getLastTextNode_loop_Nil: "getLastTextNode_loop s [] = Some None"
  by (subst getLastTextNode_loop.simps) simp

lemma getLastTextNode_loop_Cons:
  "getLastTextNode_loop s (child # rest) =
     (if isTextNode child then Some (Some child)
      else if isBlockNode child then getLastTextNode_loop s (rev (getChildren s child))
      else getLastTextNode_loop s rest)"
  by (subst getLastTextNode_loop.simps) simp

lemmas example_defs = exampleEnv_def mkText_def mkBlock_def

lemmas read_defs = getChildren_def getLatest_def getNodeByKey_def childrenOf_def
  isTextNode_def isBlockNode_def textOf_def urlOf_def

lemmas model_defs = normalizeTextNodes_def shouldErrorOnReadOnly_def closeBatch_def
  combineAdjacentTextNodes_def invariant_def getWritableNode_def getTextContent_def
  spliceText_def remove_def setText_def setChildren_def setParent_def getParent_def
  updateSelection_def isImmutable_def isSegmented_def Let_def appendNode_def
  removeFromPreviousParent_def markLastChild_def clear_def createTextNode_def select_def

section \<open>Registry lemmas\<close>

lemma getLatest_live: "nodeMap s (key n) = Some v \<Longrightarrow> getLatest s n = v"
  by (simp add: getLatest_def getNodeByKey_def)

lemma getLatest_key: "registryConsistent s \<Longrightarrow> key (getLatest s n) = key n"
  by (auto simp: registryConsistent_def getLatest_def getNodeByKey_def split: option.splits)


lemma registryConsistent_map_of:
  "\<forall>(k, n) \<in> set nodes. key n = k \<Longrightarrow> registryConsistent (exampleEnv nodes sel)"
  by (auto simp: registryConsistent_def exampleEnv_def dest: map_of_SomeD)

lemma getWritableNode_live:
  "nodeMap s (key n) = Some v \<Longrightarrow>
   getWritableNode s n = (s\<lparr>clonedThisTxn := insert (key n) (clonedThisTxn s)\<rparr>, v)"
  by (simp add: getWritableNode_def getLatest_live fun_upd_idem)

lemma getWritableNode_consistent:
  "registryConsistent s \<Longrightarrow> registryConsistent (fst (getWritableNode s n))"
  by (auto simp: registryConsistent_def getWritableNode_def Let_def getLatest_def
        getNodeByKey_def split: option.splits)

lemma getWritableNode_getLatest:
  "key m \<noteq> key n \<or> m = n \<Longrightarrow> getLatest (fst (getWritableNode s n)) m = getLatest s m"
  by (auto simp: getWritableNode_def Let_def getLatest_def getNodeByKey_def split: option.splits)

lemma getChildren_loop_eq:
  "getChildren_loop s ks acc = acc @ List.map_filter (nodeMap s) ks"
  by (induction ks arbitrary: acc)
     (auto simp: getNodeByKey_def List.map_filter_simps split: option.splits)


section \<open>Read traversals\<close>

text \<open>
  C1. \<^verbatim>\<open>getFirstTextNode\<close> is to return the first text node of a depth-first walk of the
  subtree, and none only if the subtree has no text node; \<^verbatim>\<open>getLastTextNode\<close> likewise
  from the end. The source returns the result of the recursive call on the first block
  child it meets, whatever that result is. In the example the block \<open>B\<close> has the children
  \<open>E\<close>, an empty block, and \<open>T\<close>, a text node: \<^verbatim>\<open>getFirstTextNode\<close> returns \<^verbatim>\<open>null\<close>
  although \<open>T\<close> is a text node of the subtree. The block \<open>R\<close> has the children \<open>U\<close>, a
  text node, and \<open>F\<close>, an empty block: \<^verbatim>\<open>getLastTextNode\<close> returns \<^verbatim>\<open>null\<close>.
\<close>

theorem getFirstTextNode_stops_in_first_block:
  "getChildren envEmptyBlockSibling (mkBlock ''B'' None [''E'', ''T''])
     = [mkBlock ''E'' (Some ''B'') [], mkText ''T'' (Some ''B'') ''a'' None]
   \<and> isTextNode (mkText ''T'' (Some ''B'') ''a'' None)
   \<and> getFirstTextNode envEmptyBlockSibling (mkBlock ''B'' None [''E'', ''T'']) = Some None
   \<and> getChildren envEmptyBlockSibling (mkBlock ''R'' None [''U'', ''F''])
     = [mkText ''U'' (Some ''R'') ''a'' None, mkBlock ''F'' (Some ''R'') []]
   \<and> isTextNode (mkText ''U'' (Some ''R'') ''a'' None)
   \<and> getLastTextNode envEmptyBlockSibling (mkBlock ''R'' None [''U'', ''F'']) = Some None"
  by (simp add: getFirstTextNode_def getLastTextNode_def envEmptyBlockSibling_def
        read_defs example_defs
        getFirstTextNode_loop_Nil getFirstTextNode_loop_Cons
        getLastTextNode_loop_Nil getLastTextNode_loop_Cons)

text \<open>
  C9, as stated: \<^verbatim>\<open>getFirstChild\<close> and \<^verbatim>\<open>getLastChild\<close> skip keys that do not resolve, as
  \<^verbatim>\<open>getChildren\<close> does. In the example the first key of the block does not resolve and
  the second does: \<^verbatim>\<open>getChildren\<close> returns the one live node, \<^verbatim>\<open>getFirstChild\<close> returns
  \<^verbatim>\<open>null\<close>.
\<close>

theorem getFirstChild_dangling_first_key:
  "getChildren envDangling (mkBlock ''B'' None [''gone'', ''T''])
     = [mkText ''T'' (Some ''B'') ''a'' None]
   \<and> getFirstChild envDangling (mkBlock ''B'' None [''gone'', ''T'']) = None"
  by (simp add: getFirstChild_def envDangling_def read_defs example_defs)

text \<open>
  C9, amended. No read traversal fails. \<^verbatim>\<open>getChildren\<close> resolves the keys of the latest
  version of the block in order and returns the nodes of the keys that resolve.
  \<^verbatim>\<open>getFirstChild\<close> resolves the first key only and \<^verbatim>\<open>getLastChild\<close> the last key only:
  each returns none when the block has no key or when that one key does not resolve.
\<close>

theorem read_traversals_resolve_keys:
  "getChildren s this = List.map_filter (nodeMap s) (childrenOf (getLatest s this))
   \<and> getFirstChild s this =
       (case childrenOf (getLatest s this) of [] \<Rightarrow> None | k # ks \<Rightarrow> nodeMap s k)
   \<and> getLastChild s this =
       (case rev (childrenOf (getLatest s this)) of [] \<Rightarrow> None | k # ks \<Rightarrow> nodeMap s k)"
proof (intro conjI)
  show "getChildren s this = List.map_filter (nodeMap s) (childrenOf (getLatest s this))"
    by (simp add: getChildren_def getChildren_loop_eq)
  show "getFirstChild s this =
       (case childrenOf (getLatest s this) of [] \<Rightarrow> None | k # ks \<Rightarrow> nodeMap s k)"
    by (simp add: getFirstChild_def getNodeByKey_def split: list.splits)
  show "getLastChild s this =
       (case rev (childrenOf (getLatest s this)) of [] \<Rightarrow> None | k # ks \<Rightarrow> nodeMap s k)"
    by (cases "childrenOf (getLatest s this)" rule: rev_cases)
       (simp_all add: getLastChild_def getNodeByKey_def)
qed

section \<open>Normalisation: when a merge is attempted\<close>

lemma normalize_loop_no_merge:
  "\<not> scanClosesMerge s cs tn lf lu \<Longrightarrow> normalize_loop s r cs tn lf lu = Inr s"
  by (induction cs arbitrary: tn lf lu) (auto simp: Let_def closeBatch_def)

lemma normalize_loop_no_selection:
  "scanClosesMerge s cs tn lf lu \<Longrightarrow> selection s = None \<Longrightarrow>
   normalize_loop s r cs tn lf lu
     = Inl (InvariantViolation ''combineAdjacentTextNodes: selection not found'')"
  by (induction cs arbitrary: tn lf lu)
     (auto simp: Let_def closeBatch_def combineAdjacentTextNodes_def invariant_def)

lemma spliceText_fields:
  "\<not> isReadOnly s \<Longrightarrow>
   \<exists>s'. spliceText s n off del t = Inr s' \<and> selection s' = selection s
        \<and> isReadOnly s' = isReadOnly s \<and> dirtySubTrees s' = dirtySubTrees s"
  by (simp add: spliceText_def shouldErrorOnReadOnly_def getWritableNode_def Let_def
        setText_def split: option.splits)

lemma remove_fields:
  "\<not> isReadOnly s \<Longrightarrow>
   \<exists>s'. remove s n = Inr s' \<and> selection s' = selection s
        \<and> isReadOnly s' = isReadOnly s \<and> dirtySubTrees s' = dirtySubTrees s"
  by (simp add: remove_def shouldErrorOnReadOnly_def Let_def
        setChildren_def split: option.splits NodeClass.splits)

lemma combine_loop_total:
  "\<not> isReadOnly s \<Longrightarrow>
   \<exists>s'. combine_loop s r sel0 w len rest = Inr s' \<and> \<not> isReadOnly s'
        \<and> (selection s \<noteq> None \<longrightarrow> selection s' \<noteq> None)"
proof (induction rest arbitrary: s len)
  case Nil
  then show ?case by simp
next
  case (Cons t rest)
  define s1 where "s1 = (if r \<and> key t = anchorKey sel0
                then updateSelection
                       (\<lambda>sel. sel\<lparr>anchorOffset := len + anchorOffset sel0,
                                  anchorKey := key w\<rparr>) s
                else s)"
  define s2 where "s2 = (if r \<and> key t = focusKey sel0
                then updateSelection
                       (\<lambda>sel. sel\<lparr>focusOffset := len + focusOffset sel0,
                                  focusKey := key w\<rparr>) s1
                else s1)"
  have ro2: "\<not> isReadOnly s2" and sel2: "selection s \<noteq> None \<longrightarrow> selection s2 \<noteq> None"
    using Cons.prems by (auto simp: s1_def s2_def updateSelection_def)
  obtain s3 where s3: "spliceText s2 w len 0 (getTextContent s t) = Inr s3"
      "selection s3 = selection s2" "isReadOnly s3 = isReadOnly s2"
    using spliceText_fields [OF ro2] by blast
  have ro3: "\<not> isReadOnly s3" using s3 ro2 by simp
  obtain s4 where s4: "remove s3 t = Inr s4"
      "selection s4 = selection s3" "isReadOnly s4 = isReadOnly s3"
    using remove_fields [OF ro3] by blast
  have ro4: "\<not> isReadOnly s4" using s4 ro3 by simp
  from Cons.IH [OF ro4, of "len + length (getTextContent s t)"]
  obtain s' where "combine_loop s4 r sel0 w (len + length (getTextContent s t)) rest = Inr s'"
     "\<not> isReadOnly s'" "selection s4 \<noteq> None \<longrightarrow> selection s' \<noteq> None" by blast
  then show ?case using s3 s4 sel2
    by (simp add: Let_def s1_def [symmetric] s2_def [symmetric])
qed

lemma combineAdjacentTextNodes_total:
  assumes "\<not> isReadOnly s" "selection s \<noteq> None" "ts \<noteq> []"
  shows "\<exists>s'. combineAdjacentTextNodes s ts r = Inr s' \<and> \<not> isReadOnly s'
        \<and> selection s' \<noteq> None \<and> (r \<longrightarrow> selectionDirty s')"
proof -
  obtain first rest where ts: "ts = first # rest" using assms(3) by (cases ts) auto
  define s1 where "s1 = fst (getWritableNode s first)"
  define w where "w = snd (getWritableNode s first)"
  have s1: "\<not> isReadOnly s1" "selection s1 = selection s"
    using assms by (simp_all add: s1_def getWritableNode_def Let_def)
  from combine_loop_total [OF s1(1)]
  obtain s2 where s2: "combine_loop s1 r (the (selection s)) w (length (getTextContent s1 w)) rest = Inr s2"
     "\<not> isReadOnly s2" "selection s1 \<noteq> None \<longrightarrow> selection s2 \<noteq> None" by blast
  then show ?thesis using assms s1
    by (auto simp: combineAdjacentTextNodes_def invariant_def ts Let_def split_beta
          s1_def [symmetric] w_def [symmetric] updateSelection_def selectionDirty_def)
qed

lemma closeBatch_total:
  assumes "\<not> isReadOnly s" "selection s \<noteq> None"
  shows "\<exists>s'. closeBatch s tn True = Inr s' \<and> \<not> isReadOnly s' \<and> selection s' \<noteq> None
        \<and> (length tn > 1 \<or> selectionDirty s \<longrightarrow> selectionDirty s')"
proof (cases "length tn > 1")
  case True
  then have "tn \<noteq> []" by auto
  from combineAdjacentTextNodes_total [OF assms this, of True] True
  show ?thesis by (auto simp: closeBatch_def)
next
  case False
  then show ?thesis using assms by (simp add: closeBatch_def)
qed

lemma normalize_loop_total:
  "\<not> isReadOnly s \<Longrightarrow> selection s \<noteq> None \<Longrightarrow>
   \<exists>s'. normalize_loop s True cs tn lf lu = Inr s' \<and> (selectionDirty s \<longrightarrow> selectionDirty s')"
proof (induction cs arbitrary: s tn lf lu)
  case Nil
  then show ?case using closeBatch_total [of s tn] by auto
next
  case (Cons c cs)
  obtain s1 where s1: "closeBatch s tn True = Inr s1" "\<not> isReadOnly s1" "selection s1 \<noteq> None"
     "selectionDirty s \<longrightarrow> selectionDirty s1"
    using closeBatch_total [OF Cons.prems, of tn] by blast
  show ?case
    using Cons.IH [OF Cons.prems] Cons.IH [OF s1(2,3)] s1(1,4)
    by (simp add: Let_def) blast
qed

lemma normalize_loop_merge_dirty:
  "scanClosesMerge s cs tn lf lu \<Longrightarrow> \<not> isReadOnly s \<Longrightarrow> selection s \<noteq> None \<Longrightarrow>
   \<exists>s'. normalize_loop s True cs tn lf lu = Inr s' \<and> selectionDirty s'"
proof (induction cs arbitrary: tn lf lu)
  case Nil
  then show ?case using closeBatch_total [of s tn] by auto
next
  case (Cons c cs)
  obtain s1 where s1: "closeBatch s tn True = Inr s1" "\<not> isReadOnly s1" "selection s1 \<noteq> None"
     "length tn > 1 \<longrightarrow> selectionDirty s1"
    using closeBatch_total [OF Cons.prems(2,3), of tn] by blast
  have later: "length tn > 1 \<Longrightarrow>
      \<exists>s'. normalize_loop s1 True cs tn' lf' lu' = Inr s' \<and> selectionDirty s'" for tn' lf' lu'
    using normalize_loop_total [OF s1(2,3), of cs tn' lf' lu'] s1(4) by blast
  have same: "\<not> length tn > 1 \<Longrightarrow> s1 = s"
    using s1(1) by (simp add: closeBatch_def)
  define child where "child = getLatest s c"
  define q where "q = (isTextNode child \<and> \<not> isImmutable s child \<and> \<not> isSegmented s child)"
  define j where "j = ((lf = None \<or> Some (flags child) = lf) \<and> (lu = None \<or> lu = urlOf child))"
  have ih: "scanClosesMerge s cs tn' lf' lu' \<Longrightarrow>
      \<exists>s'. normalize_loop s True cs tn' lf' lu' = Inr s' \<and> selectionDirty s'" for tn' lf' lu'
    using Cons.IH Cons.prems(2,3) by blast
  have closed: "length tn > 1 \<or> scanClosesMerge s cs tn' lf' lu' \<Longrightarrow>
      \<exists>s'. normalize_loop s1 True cs tn' lf' lu' = Inr s' \<and> selectionDirty s'" for tn' lf' lu'
    using later same ih by (cases "length tn > 1") auto
  have scan_eq: "scanClosesMerge s (c # cs) tn lf lu =
      (if q then if j then scanClosesMerge s cs (tn @ [child]) (Some (flags child)) (urlOf child)
                 else length tn > 1 \<or> scanClosesMerge s cs [child] (Some (flags child)) (urlOf child)
       else length tn > 1 \<or> scanClosesMerge s cs [] None lu)"
    by (simp add: Let_def q_def j_def child_def)
  have loop_eq: "normalize_loop s True (c # cs) tn lf lu =
      (if q then if j then normalize_loop s True cs (tn @ [child]) (Some (flags child)) (urlOf child)
                 else normalize_loop s1 True cs [child] (Some (flags child)) (urlOf child)
       else normalize_loop s1 True cs [] None lu)"
    using s1(1) by (simp add: Let_def q_def j_def child_def)
  show ?case
    using Cons.prems(1) ih closed unfolding scan_eq loop_eq
    by (simp split: if_splits)
qed

text \<open>
  C8, as stated: when the merge is not selection-aware, normalisation does not require a
  selection. In the example the block has the two text children \<open>ab\<close> and \<open>cd\<close> with
  equal flags and no url, there is no selection, and \<^verbatim>\<open>restoreSelection\<close> is not set: the
  pass fails with the invariant violation.
\<close>

theorem normalize_plain_merge_needs_selection:
  "normalizeTextNodes (envPair None) blockPair False
     = Inl (InvariantViolation ''combineAdjacentTextNodes: selection not found'')"
  by (simp add: envPair_def blockPair_def example_defs read_defs model_defs)

text \<open>
  C8, amended. With no selection object, normalisation fails with the invariant violation
  of \<^verbatim>\<open>combineAdjacentTextNodes\<close> exactly when its scan closes a batch of more than one
  node, whether or not \<^verbatim>\<open>restoreSelection\<close> is set; when no batch reaches length greater
  than 1 it succeeds without a selection and leaves the state as it is.
\<close>

theorem normalize_without_selection:
  assumes "\<not> isReadOnly s" "selection s = None"
  shows "normalizeTextNodes s this restoreSelection =
     (if scanClosesMerge s (getChildren s this) [] None None
      then Inl (InvariantViolation ''combineAdjacentTextNodes: selection not found'')
      else Inr s)"
  using assms normalize_loop_no_merge [of s "getChildren s this" "[]" None None restoreSelection]
    normalize_loop_no_selection [of s "getChildren s this" "[]" None None restoreSelection]
  by (simp add: normalizeTextNodes_def shouldErrorOnReadOnly_def)

text \<open>Witness for C8: a block with one text child and no selection; the pass returns the
  state as it is.\<close>

lemma envSingle_scan:
  "\<not> scanClosesMerge envSingle (getChildren envSingle (mkBlock ''B'' None [''t1'']))
       [] None None"
  by (simp add: envSingle_def example_defs read_defs model_defs)

theorem normalize_without_selection_witness:
  "\<not> isReadOnly envSingle \<and> selection envSingle = None
   \<and> normalizeTextNodes envSingle (mkBlock ''B'' None [''t1'']) True = Inr envSingle"
proof -
  have h: "\<not> isReadOnly envSingle" "selection envSingle = None"
    by (simp_all add: envSingle_def example_defs)
  from normalize_without_selection [OF h, of "mkBlock ''B'' None [''t1'']" True] envSingle_scan h
  show ?thesis by simp
qed

text \<open>
  C10. Whenever \<^verbatim>\<open>normalizeTextNodes\<close> with \<^verbatim>\<open>restoreSelection\<close> set merges at least one
  batch, the selection is dirty afterwards, whatever the keys of its two ends are. The pass
  merges at least one batch exactly when its scan closes a batch of more than one node;
  outside read-only mode and with a selection present it then returns, and the selection
  of the state it returns has \<open>isDirty\<close> set.
\<close>

theorem normalize_merge_sets_dirty:
  assumes "scanClosesMerge s (getChildren s this) [] None None"
    and "\<not> isReadOnly s" and "selection s \<noteq> None"
  shows "\<exists>s' sel. normalizeTextNodes s this True = Inr s' \<and> selection s' = Some sel
           \<and> isDirty sel"
proof -
  from normalize_loop_merge_dirty [OF assms]
  obtain s' where "normalize_loop s True (getChildren s this) [] None None = Inr s'"
    "selectionDirty s'" by blast
  then show ?thesis using assms(2)
    by (cases "selection s'")
       (simp_all add: normalizeTextNodes_def shouldErrorOnReadOnly_def selectionDirty_def)
qed

text \<open>Witness for C10: the two text children merge while both ends of the selection sit in
  the block itself, a node that is not merged away.\<close>

theorem normalize_merge_sets_dirty_witness:
  "scanClosesMerge (envPair (Some selOutside)) (getChildren (envPair (Some selOutside)) blockPair)
      [] None None
   \<and> \<not> isReadOnly (envPair (Some selOutside))
   \<and> selection (envPair (Some selOutside)) = Some selOutside
   \<and> anchorKey selOutside \<notin> {''t1'', ''t2''} \<and> focusKey selOutside \<notin> {''t1'', ''t2''}
   \<and> (\<exists>s' sel. normalizeTextNodes (envPair (Some selOutside)) blockPair True = Inr s'
          \<and> selection s' = Some sel \<and> isDirty sel)"
proof -
  have h1: "scanClosesMerge (envPair (Some selOutside))
      (getChildren (envPair (Some selOutside)) blockPair) [] None None"
    by (simp add: envPair_def blockPair_def example_defs read_defs model_defs)
  have h2: "\<not> isReadOnly (envPair (Some selOutside))"
    and h3: "selection (envPair (Some selOutside)) = Some selOutside"
    by (simp_all add: envPair_def example_defs)
  have h3': "selection (envPair (Some selOutside)) \<noteq> None" using h3 by simp
  from normalize_merge_sets_dirty [OF h1 h2 h3'] h1 h2 h3
  show ?thesis by (simp add: selOutside_def)
qed

section \<open>Normalisation: the selection through a merge\<close>

lemma spliceText_registry:
  assumes "\<not> isReadOnly s" "registryConsistent s"
  shows "\<exists>s'. spliceText s w off del txt = Inr s' \<and> selection s' = selection s
        \<and> \<not> isReadOnly s' \<and> registryConsistent s'
        \<and> (\<forall>k. k \<noteq> key w \<longrightarrow> nodeMap s' k = nodeMap s k)"
  using assms getLatest_key [OF assms(2), of w]
  by (auto simp: spliceText_def shouldErrorOnReadOnly_def getWritableNode_def Let_def
        setText_def registryConsistent_def split: option.splits)

lemma remove_registry:
  assumes "\<not> isReadOnly s" "registryConsistent s"
  shows "\<exists>s'. remove s t = Inr s' \<and> selection s' = selection s
        \<and> \<not> isReadOnly s' \<and> registryConsistent s'
        \<and> (\<forall>n. key n \<noteq> key t \<longrightarrow> getTextContent s' n = getTextContent s n)"
  using assms
  by (auto simp: remove_def shouldErrorOnReadOnly_def Let_def getParent_def getNodeByKey_def
        setChildren_def registryConsistent_def getTextContent_def getLatest_def textOf_def
        split: option.splits NodeClass.splits)

lemma combine_loop_selection:
  assumes "\<not> isReadOnly s" "registryConsistent s" "key w \<notin> key ` set rest"
    "distinct (map key rest)" "selection s = Some cur" "r"
  shows "\<exists>s'. combine_loop s r sel0 w len rest = Inr s' \<and>
     selection s' = Some (cur
       \<lparr>anchorKey := (if anchorKey sel0 \<in> key ` set rest then key w else anchorKey cur),
        anchorOffset := (if anchorKey sel0 \<in> key ` set rest
           then len + sum_list (map (\<lambda>t. length (getTextContent s t))
                                  (takeWhile (\<lambda>t. key t \<noteq> anchorKey sel0) rest))
                + anchorOffset sel0
           else anchorOffset cur),
        focusKey := (if focusKey sel0 \<in> key ` set rest then key w else focusKey cur),
        focusOffset := (if focusKey sel0 \<in> key ` set rest
           then len + sum_list (map (\<lambda>t. length (getTextContent s t))
                                  (takeWhile (\<lambda>t. key t \<noteq> focusKey sel0) rest))
                + focusOffset sel0
           else focusOffset cur)\<rparr>)"
  using assms
proof (induction rest arbitrary: s len cur)
  case Nil
  then show ?case by simp
next
  case (Cons t rest)
  define s1 where "s1 = (if r \<and> key t = anchorKey sel0
                then updateSelection
                       (\<lambda>sel. sel\<lparr>anchorOffset := len + anchorOffset sel0,
                                  anchorKey := key w\<rparr>) s
                else s)"
  define s2 where "s2 = (if r \<and> key t = focusKey sel0
                then updateSelection
                       (\<lambda>sel. sel\<lparr>focusOffset := len + focusOffset sel0,
                                  focusKey := key w\<rparr>) s1
                else s1)"
  define cur2 where "cur2 = cur
       \<lparr>anchorKey := (if key t = anchorKey sel0 then key w else anchorKey cur),
        anchorOffset := (if key t = anchorKey sel0 then len + anchorOffset sel0
                         else anchorOffset cur),
        focusKey := (if key t = focusKey sel0 then key w else focusKey cur),
        focusOffset := (if key t = focusKey sel0 then len + focusOffset sel0
                        else focusOffset cur)\<rparr>"
  have nm2: "nodeMap s2 = nodeMap s" and ro2: "\<not> isReadOnly s2"
    using Cons.prems(1) by (auto simp: s1_def s2_def updateSelection_def)
  have r: "r" by fact
  have rc2: "registryConsistent s2"
    using Cons.prems(2) nm2 by (simp add: registryConsistent_def)
  have sel2: "selection s2 = Some cur2"
    using Cons.prems(5) r by (auto simp: s1_def s2_def cur2_def updateSelection_def)
  obtain s3 where s3: "spliceText s2 w len 0 (getTextContent s t) = Inr s3"
      "selection s3 = selection s2" "\<not> isReadOnly s3" "registryConsistent s3"
      "\<forall>k. k \<noteq> key w \<longrightarrow> nodeMap s3 k = nodeMap s2 k"
    using spliceText_registry [OF ro2 rc2] by blast
  obtain s4 where s4: "remove s3 t = Inr s4"
      "selection s4 = selection s3" "\<not> isReadOnly s4" "registryConsistent s4"
      "\<forall>n. key n \<noteq> key t \<longrightarrow> getTextContent s4 n = getTextContent s3 n"
    using remove_registry [OF s3(3,4)] by blast
  have frame: "getTextContent s4 n = getTextContent s n" if "n \<in> set rest" for n
  proof -
    have "key n \<in> key ` set rest" using that by (rule imageI)
    then have "key n \<noteq> key t" "key n \<noteq> key w" using Cons.prems(3,4) by auto
    then show ?thesis using s4(5) s3(5) nm2
      by (simp add: getTextContent_def getLatest_def getNodeByKey_def)
  qed
  have sums: "sum_list (map (\<lambda>t. length (getTextContent s4 t)) (takeWhile P rest))
      = sum_list (map (\<lambda>t. length (getTextContent s t)) (takeWhile P rest))" for P
  proof -
    have "map (\<lambda>t. length (getTextContent s4 t)) (takeWhile P rest)
        = map (\<lambda>t. length (getTextContent s t)) (takeWhile P rest)"
      using frame by (intro map_cong refl) (auto dest: set_takeWhileD)
    then show ?thesis by (rule arg_cong)
  qed
  have pre: "key w \<notin> key ` set rest" "distinct (map key rest)"
    using Cons.prems(3,4) by auto
  have sel4: "selection s4 = Some cur2" using s4(2) s3(2) sel2 by simp
  have step: "combine_loop s r sel0 w len (t # rest)
      = combine_loop s4 r sel0 w (len + length (getTextContent s t)) rest"
    using s3(1) s4(1) by (simp add: Let_def s1_def [symmetric] s2_def [symmetric])
  have tk: "key t \<notin> key ` set rest" using Cons.prems(4) by auto
  from Cons.IH [OF s4(3,4) pre sel4 r, of "len + length (getTextContent s t)"]
  show ?case unfolding step sums using tk
    by (auto simp: cur2_def)
qed

text \<open>
  C3. A merge of the batch \<open>first # rest\<close> with \<^verbatim>\<open>restoreSelection\<close> set returns, and
  each end of the selection, anchor and focus independently, whose key is the key of a node
  merged away has afterwards the key of the surviving node \<open>first\<close> and the offset
  \<open>lengthBefore + original offset\<close>, where \<open>lengthBefore\<close> is the text length of the
  surviving node at the moment before the text of that node is spliced in; an end in another
  node is unchanged; \<open>isDirty\<close> is set. The nodes of a batch have distinct keys, and
  the registry files every node under its own key.
\<close>

theorem combine_rebases_selection:
  assumes ro: "\<not> isReadOnly s" and rc: "registryConsistent s"
    and sel: "selection s = Some sel"
    and dist: "distinct (map key (first # rest))"
  shows "\<exists>s'. combineAdjacentTextNodes s (first # rest) True = Inr s' \<and>
              selection s' = Some (rebaseSelection s first rest sel)"
proof -
  define s1 where "s1 = fst (getWritableNode s first)"
  define w where "w = snd (getWritableNode s first)"
  have gw: "getWritableNode s first = (s1, w)" by (simp add: s1_def w_def)
  have w: "w = getLatest s first" by (simp add: w_def getWritableNode_def Let_def)
  have kw: "key w = key first" using rc by (simp add: w getLatest_key)
  have s1: "\<not> isReadOnly s1" "selection s1 = Some sel"
    using ro sel by (simp_all add: s1_def getWritableNode_def Let_def)
  have rc1: "registryConsistent s1" using rc unfolding s1_def by (rule getWritableNode_consistent)
  have fresh: "key w \<notin> key ` set rest" "distinct (map key rest)"
    using dist kw by auto
  have text_first: "getTextContent s1 w = getTextContent s first"
    using kw by (simp add: getTextContent_def s1_def getWritableNode_def Let_def getLatest_def
          getNodeByKey_def w [symmetric] split: option.splits)
  have text_rest: "getTextContent s1 t = getTextContent s t" if "t \<in> set rest" for t
  proof -
    have "key t \<in> key ` set rest" using that by (rule imageI)
    then have "key t \<noteq> key first" using dist by auto
    then show ?thesis
      unfolding getTextContent_def s1_def by (simp add: getWritableNode_getLatest)
  qed
  have sums: "sum_list (map (\<lambda>t. length (getTextContent s1 t)) (takeWhile P rest))
      = sum_list (map (\<lambda>t. length (getTextContent s t)) (takeWhile P rest))" for P
  proof -
    have "map (\<lambda>t. length (getTextContent s1 t)) (takeWhile P rest)
        = map (\<lambda>t. length (getTextContent s t)) (takeWhile P rest)"
      using text_rest by (intro map_cong refl) (auto dest: set_takeWhileD)
    then show ?thesis by (rule arg_cong)
  qed
  from combine_loop_selection [OF s1(1) rc1 fresh s1(2), of True sel
          "length (getTextContent s1 w)"]
  obtain s2 where s2: "combine_loop s1 True sel w (length (getTextContent s1 w)) rest = Inr s2"
    and sel2: "selection s2 = Some (sel
       \<lparr>anchorKey := (if anchorKey sel \<in> key ` set rest then key w else anchorKey sel),
        anchorOffset := (if anchorKey sel \<in> key ` set rest
           then length (getTextContent s1 w)
                + sum_list (map (\<lambda>t. length (getTextContent s1 t))
                                  (takeWhile (\<lambda>t. key t \<noteq> anchorKey sel) rest))
                + anchorOffset sel
           else anchorOffset sel),
        focusKey := (if focusKey sel \<in> key ` set rest then key w else focusKey sel),
        focusOffset := (if focusKey sel \<in> key ` set rest
           then length (getTextContent s1 w)
                + sum_list (map (\<lambda>t. length (getTextContent s1 t))
                                  (takeWhile (\<lambda>t. key t \<noteq> focusKey sel) rest))
                + focusOffset sel
           else focusOffset sel)\<rparr>)"
    by auto
  have res: "combineAdjacentTextNodes s (first # rest) True
      = Inr (updateSelection (\<lambda>sel. sel\<lparr>isDirty := True\<rparr>) s2)"
    using sel gw s2 by (simp add: combineAdjacentTextNodes_def invariant_def)
  show ?thesis
    unfolding res using sel2
    by (simp add: updateSelection_def rebaseSelection_def lengthBefore_def sums text_first kw)
qed

text \<open>Witness for C3: the batch \<open>ab\<close>, \<open>cd\<close> with the anchor in the second node at
  offset 1 and the focus there at offset 2; after the merge the anchor is in the surviving
  node at offset 3, the focus at offset 4, and the selection is dirty.\<close>

theorem combine_rebases_selection_witness:
  "\<not> isReadOnly (envPair (Some selSecond)) \<and> registryConsistent (envPair (Some selSecond))
   \<and> selection (envPair (Some selSecond)) = Some selSecond
   \<and> distinct (map key [mkText ''t1'' (Some ''B'') ''ab'' None, mkText ''t2'' (Some ''B'') ''cd'' None])
   \<and> (\<exists>s'. combineAdjacentTextNodes (envPair (Some selSecond))
              [mkText ''t1'' (Some ''B'') ''ab'' None, mkText ''t2'' (Some ''B'') ''cd'' None] True
            = Inr s'
          \<and> selection s' = Some \<lparr>anchorKey = ''t1'', anchorOffset = 3, focusKey = ''t1'',
                                  focusOffset = 4, isDirty = True\<rparr>)"
proof -
  have h1: "\<not> isReadOnly (envPair (Some selSecond))"
    and h3: "selection (envPair (Some selSecond)) = Some selSecond"
    by (simp_all add: envPair_def example_defs)
  have h2: "registryConsistent (envPair (Some selSecond))"
    unfolding envPair_def by (rule registryConsistent_map_of) (simp add: blockPair_def example_defs)
  have h4: "distinct (map key [mkText ''t1'' (Some ''B'') ''ab'' None,
                               mkText ''t2'' (Some ''B'') ''cd'' None])"
    by (simp add: example_defs)
  have r: "rebaseSelection (envPair (Some selSecond)) (mkText ''t1'' (Some ''B'') ''ab'' None)
             [mkText ''t2'' (Some ''B'') ''cd'' None] selSecond
           = \<lparr>anchorKey = ''t1'', anchorOffset = 3, focusKey = ''t1'',
                                  focusOffset = 4, isDirty = True\<rparr>"
    by (simp add: rebaseSelection_def lengthBefore_def selSecond_def envPair_def blockPair_def
          example_defs read_defs getTextContent_def)
  from combine_rebases_selection [OF h1 h2 h3 h4] h1 h2 h3 h4
  show ?thesis unfolding r by simp
qed

section \<open>Normalisation: examples\<close>

text \<open>The merge example of the specification holds: of the children \<open>ab\<close> (flags 0),
  \<open>cd\<close> (flags 0), \<open>ef\<close> (flags 1) the first two merge and the third stays; the anchor,
  in the second node at offset 1 before, is in the surviving node at offset 3 afterwards,
  and the selection is dirty.\<close>

lemma normalize_merge_example:
  "map_sum id (\<lambda>s'. (getChildren s' blockMergeExample, selection s'))
     (normalizeTextNodes envMergeExample blockMergeExample True)
   = Inr ([mkText ''t1'' (Some ''B'') ''abcd'' None,
           (mkText ''t3'' (Some ''B'') ''ef'' None)\<lparr>flags := 1\<rparr>],
          Some \<lparr>anchorKey = ''t1'', anchorOffset = 3, focusKey = ''t1'', focusOffset = 4,
                 isDirty = True\<rparr>)"
  by (simp add: envMergeExample_def blockMergeExample_def selSecond_def example_defs
        read_defs model_defs)

text \<open>
  C2. The batches are to be the maximal runs of adjacent text nodes, neither immutable nor
  segmented, that share flags and url with the first node of the run, so that a text node
  whose url differs from the reference of the batch closes it. The source compares the url
  with \<^verbatim>\<open>lastURL === null || lastURL === url\<close>, where \<^verbatim>\<open>null\<close> is both "no reference
  yet" and the url of a node without a link. In the example the children are the plain text
  \<open>ab\<close> and the text \<open>cd\<close> with the url \<open>u\<close>, with equal flags: the urls differ, and the
  pass merges the second node into the first, which has no url.
\<close>

theorem normalize_merges_into_plain_text:
  "urlOf (mkText ''t1'' (Some ''B'') ''ab'' None) \<noteq> urlOf (mkText ''t2'' (Some ''B'') ''cd'' (Some ''u''))
   \<and> getChildren envLink blockLink
       = [mkText ''t1'' (Some ''B'') ''ab'' None, mkText ''t2'' (Some ''B'') ''cd'' (Some ''u'')]
   \<and> map_sum id (\<lambda>s'. getChildren s' blockLink) (normalizeTextNodes envLink blockLink False)
       = Inr [mkText ''t1'' (Some ''B'') ''abcd'' None]"
  by (simp add: envLink_def blockLink_def example_defs read_defs model_defs)

text \<open>
  C7. Normalisation is to be idempotent: a second run right after the first leaves the
  children as they are. In the example the children are the plain text \<open>a\<close>, the text
  \<open>b\<close> with the url \<open>u\<close>, and the plain text \<open>c\<close>, with equal flags. The first run merges
  \<open>b\<close> into \<open>a\<close> and closes the batch at \<open>c\<close>, whose url is not \<open>u\<close>; it leaves the two
  plain nodes \<open>ab\<close> and \<open>c\<close>, which the second run merges into \<open>abc\<close>.
\<close>

theorem normalize_second_run_merges_again:
  "normalizeTwice envLink3 blockLink3
     = Inr ([mkText ''t1'' (Some ''B'') ''ab'' None, mkText ''t3'' (Some ''B'') ''c'' None],
            [mkText ''t1'' (Some ''B'') ''abc'' None])"
  by (simp add: normalizeTwice_def envLink3_def blockLink3_def example_defs read_defs model_defs)

section \<open>Append\<close>

lemma markLastChild_fields:
  "nodeMap (markLastChild s cs) = nodeMap s"
  "dirtySubTrees (markLastChild s cs) = dirtySubTrees s \<union> trailingEmptyText s cs"
  by (cases cs rule: rev_cases;
      simp add: markLastChild_def trailingEmptyText_def Let_def split: option.splits)+

lemma removeFromPreviousParent_result:
  assumes rc: "registryConsistent s" and c: "nodeMap s (key c) = Some c"
    and ok: "removeFromPreviousParent s c = Inr s'"
  shows "nodeMap s' k = detachedMap s c k" "dirtySubTrees s' = dirtySubTrees s"
    "parent c = Some pk \<Longrightarrow> nodeMap s pk = Some p \<Longrightarrow> isBlockNode p"
    "selection s' = selection s"
proof -
  show "selection s' = selection s"
    using ok
    by (auto simp: removeFromPreviousParent_def getWritableNode_def Let_def setChildren_def
          split: option.splits NodeClass.splits)
  show "isBlockNode p" if pc: "parent c = Some pk" and p: "nodeMap s pk = Some p"
  proof -
    have "key p = pk" using rc p by (auto simp: registryConsistent_def)
    then have lp: "nodeMap s (key p) = Some p" using p by simp
    show ?thesis using ok c pc p
      by (cases "cls p")
         (simp_all add: removeFromPreviousParent_def getParent_def getLatest_live
            getNodeByKey_def getWritableNode_live [OF lp] isBlockNode_def)
  qed
  show "nodeMap s' k = detachedMap s c k"
  proof (cases "parent c")
    case None
    then show ?thesis using ok c
      by (auto simp: removeFromPreviousParent_def getParent_def getLatest_live detachedMap_def)
  next
    case (Some pk)
    show ?thesis
    proof (cases "nodeMap s pk")
      case None
      then show ?thesis using ok c Some
        by (auto simp: removeFromPreviousParent_def getParent_def getLatest_live detachedMap_def
              getNodeByKey_def)
    next
      case (Some p)
      have kp: "key p = pk" using rc Some by (auto simp: registryConsistent_def)
      then have lp: "nodeMap s (key p) = Some p" using Some by simp
      show ?thesis using ok c \<open>parent c = Some pk\<close> Some kp
        by (auto simp: removeFromPreviousParent_def getParent_def getLatest_live detachedMap_def
              getNodeByKey_def getWritableNode_live [OF lp] setChildren_def childrenOf_def
              split: NodeClass.splits)
    qed
  qed
  show "dirtySubTrees s' = dirtySubTrees s"
    using ok
    by (auto simp: removeFromPreviousParent_def getWritableNode_def Let_def setChildren_def
          split: option.splits NodeClass.splits)
qed

lemma append_result:
  assumes rc: "registryConsistent s"
    and B: "nodeMap s (key B) = Some Bv" and C: "nodeMap s (key C) = Some Cv"
    and ok: "appendNode s B C = Inr s'"
  shows "\<exists>b. nodeMap s' (key B) = Some b \<and>
             cls b = BlockNode (childrenAfterDetach s B C @ [key C])"
    and "dirtySubTrees s' = dirtySubTrees s \<union> trailingEmptyText s (childrenAfterDetach s B C)"
    and "\<exists>c. nodeMap s' (key C) = Some c \<and> parent c = Some (key B)"
    and "k \<noteq> key B \<Longrightarrow>
           map_option childrenOf (nodeMap s' k) = map_option childrenOf (detachedMap s Cv k)"
    and "map_option (\<lambda>n. (isTextNode n, textOf n)) (nodeMap s' k)
           = map_option (\<lambda>n. (isTextNode n, textOf n)) (nodeMap s k)"
    and "selection s' = selection s"
proof -
  have kB: "key Bv = key B" and kC: "key Cv = key C"
    using rc B C by (auto simp: registryConsistent_def)
  define s1 where "s1 = s\<lparr>clonedThisTxn := insert (key B) (clonedThisTxn s)\<rparr>"
  define s2 where "s2 = s1\<lparr>clonedThisTxn := insert (key C) (clonedThisTxn s1)\<rparr>"
  have w1: "getWritableNode s B = (s1, Bv)"
    using getWritableNode_live [OF B] by (simp add: s1_def)
  have C1: "nodeMap s1 (key C) = Some Cv" using C by (simp add: s1_def)
  have w2: "getWritableNode s1 C = (s2, Cv)"
    using getWritableNode_live [OF C1] by (simp add: s2_def)
  have nm2: "nodeMap s2 = nodeMap s" "dirtySubTrees s2 = dirtySubTrees s"
    "selection s2 = selection s"
    by (simp_all add: s2_def s1_def)
  have rc2: "registryConsistent s2" using rc nm2 by (simp add: registryConsistent_def)
  have C2: "nodeMap s2 (key Cv) = Some Cv" using C nm2 kC by simp
  have ro: "\<not> isReadOnly s"
    using ok by (cases "isReadOnly s") (simp_all add: appendNode_def shouldErrorOnReadOnly_def)
  obtain s3 where s3: "removeFromPreviousParent s2 Cv = Inr s3"
    using ok ro w1 w2
    by (cases "removeFromPreviousParent s2 Cv")
       (simp_all add: appendNode_def shouldErrorOnReadOnly_def)
  define s4 where "s4 = setParent (key Cv) (Some (key Bv)) s3"
  have m3: "nodeMap s3 k = detachedMap s Cv k" for k
    using removeFromPreviousParent_result(1) [OF rc2 C2 s3, of k] nm2
    by (simp add: detachedMap_def)
  have d3: "dirtySubTrees s3 = dirtySubTrees s"
    using removeFromPreviousParent_result(2) [OF rc2 C2 s3] nm2 by simp
  have sel3: "selection s3 = selection s"
    using removeFromPreviousParent_result(4) [OF rc2 C2 s3] nm2 by simp
  have blk: "parent Cv = Some pk \<Longrightarrow> nodeMap s pk = Some p \<Longrightarrow> isBlockNode p" for pk p
    using removeFromPreviousParent_result(3) [OF rc2 C2 s3, of pk p] nm2 by simp
  obtain c3 where c3: "nodeMap s3 (key C) = Some c3" "parent c3 = parent Cv"
     "isTextNode c3 = isTextNode Cv" "textOf c3 = textOf Cv"
  proof (cases "parent Cv = Some (key C)")
    case True
    from blk [OF True C] that [of "Cv\<lparr>cls := BlockNode (remove1 (key Cv) (childrenOf Cv))\<rparr>"]
    show ?thesis using C True
      by (auto simp: m3 detachedMap_def isTextNode_def isBlockNode_def textOf_def
            split: NodeClass.splits)
  next
    case False
    then show ?thesis using C that [of Cv] by (simp add: m3 detachedMap_def)
  qed
  have m4: "nodeMap s4 = (nodeMap s3)(key C \<mapsto> c3\<lparr>parent := Some (key B)\<rparr>)"
    and d4: "dirtySubTrees s4 = dirtySubTrees s"
    and sel4: "selection s4 = selection s"
    using c3(1) d3 sel3 by (simp_all add: s4_def setParent_def kC kB)
  have glB: "getLatest s B = Bv" and glC: "getLatest s C = Cv"
    using B C by (simp_all add: getLatest_live)
  obtain b3 where b3: "nodeMap s3 (key B) = Some b3"
     "childrenOf b3 = childrenAfterDetach s B C" "isBlockNode b3 = isBlockNode Bv"
  proof (cases "parent Cv = Some (key B)")
    case True
    from blk [OF True B] that [of "Bv\<lparr>cls := BlockNode (remove1 (key Cv) (childrenOf Bv))\<rparr>"]
    show ?thesis using B True
      by (simp add: m3 detachedMap_def childrenAfterDetach_def glB glC childrenOf_def
            isBlockNode_def kC)
  next
    case False
    then show ?thesis using B that [of Bv]
      by (simp add: m3 detachedMap_def childrenAfterDetach_def glB glC)
  qed
  obtain b4 where b4: "nodeMap s4 (key B) = Some b4"
     "childrenOf b4 = childrenAfterDetach s B C" "isBlockNode b4 = isBlockNode Bv"
  proof (cases "key B = key C")
    case True
    then have "c3 = b3" using c3(1) b3(1) by simp
    then show ?thesis using that [of "c3\<lparr>parent := Some (key B)\<rparr>"] b3 True
      by (simp add: m4 childrenOf_def isBlockNode_def)
  next
    case False
    then show ?thesis using that [of b3] b3 by (simp add: m4)
  qed
  have l4: "getLatest s4 Bv = b4" using b4(1) kB by (simp add: getLatest_def getNodeByKey_def)
  have tail: "(case cls (getLatest s4 Bv) of
                 BlockNode cs \<Rightarrow>
                   let s5 = markLastChild s4 cs; newKey = key Cv
                   in Inr (setChildren (key Bv) (cs @ [newKey]) s5)
               | _ \<Rightarrow> Inl TypeError) = Inr s'"
    unfolding s4_def using ok ro w1 w2 s3
    by (simp add: appendNode_def shouldErrorOnReadOnly_def Let_def)
  obtain cs where cs: "cls b4 = BlockNode cs"
    using tail unfolding l4 by (cases "cls b4") simp_all
  have cs_eq: "cs = childrenAfterDetach s B C" using cs b4(2) by (simp add: childrenOf_def)
  define s5 where "s5 = markLastChild s4 cs"
  have s': "s' = setChildren (key B) (cs @ [key C]) s5"
    using tail unfolding l4 cs by (simp add: s5_def kB kC)
  have m5: "nodeMap s5 = nodeMap s4" by (simp add: s5_def markLastChild_fields)
  have m': "nodeMap s' = (nodeMap s4)(key B \<mapsto> b4\<lparr>cls := BlockNode (cs @ [key C])\<rparr>)"
    using b4(1) by (simp add: s' setChildren_def m5)
  show "\<exists>b. nodeMap s' (key B) = Some b \<and>
             cls b = BlockNode (childrenAfterDetach s B C @ [key C])"
    by (simp add: m' cs_eq)
  have kind: "map_option (\<lambda>n. (isTextNode n, textOf n)) (nodeMap s4 k)
      = map_option (\<lambda>n. (isTextNode n, textOf n)) (nodeMap s k)" for k
  proof (cases "k = key C")
    case True
    then show ?thesis using c3 C by (simp add: m4 isTextNode_def textOf_def)
  next
    case False
    show ?thesis
    proof (cases "nodeMap s k")
      case None
      then show ?thesis using False by (simp add: m4 m3 detachedMap_def)
    next
      case (Some p)
      show ?thesis
      proof (cases "parent Cv = Some k")
        case True
        from blk [OF True Some] show ?thesis using False Some True
          by (auto simp: m4 m3 detachedMap_def isTextNode_def isBlockNode_def textOf_def
                split: NodeClass.splits)
      next
        case False
        then show ?thesis using \<open>k \<noteq> key C\<close> by (simp add: m4 m3 detachedMap_def)
      qed
    qed
  qed
  have same_kind: "(case getNodeByKey s4 k of None \<Rightarrow> {}
        | Some n \<Rightarrow> if isTextNode n \<and> textOf n = [] then {k} else {})
      = (case getNodeByKey s k of None \<Rightarrow> {}
        | Some n \<Rightarrow> if isTextNode n \<and> textOf n = [] then {k} else {})" for k
    using kind [of k]
    by (cases "nodeMap s4 k"; cases "nodeMap s k"; simp add: getNodeByKey_def)
  have "trailingEmptyText s4 cs = trailingEmptyText s cs"
    by (simp add: trailingEmptyText_def same_kind split: list.splits)
  then show "dirtySubTrees s' = dirtySubTrees s \<union> trailingEmptyText s (childrenAfterDetach s B C)"
    using b4(1) by (simp add: s' setChildren_def s5_def markLastChild_fields d4 cs_eq)
  show "\<exists>c. nodeMap s' (key C) = Some c \<and> parent c = Some (key B)"
  proof (cases "key B = key C")
    case True
    then have "b4 = c3\<lparr>parent := Some (key B)\<rparr>" using b4(1) by (simp add: m4)
    then show ?thesis using True by (simp add: m')
  next
    case False
    then show ?thesis by (simp add: m' m4)
  qed
  show "map_option childrenOf (nodeMap s' k) = map_option childrenOf (detachedMap s Cv k)"
    if "k \<noteq> key B"
  proof (cases "k = key C")
    case True
    have "childrenOf c3 = childrenOf (the (detachedMap s Cv (key C)))"
      using c3(1) by (simp add: m3)
    then show ?thesis using that True c3(1)
      by (simp add: m' m4 m3 [symmetric] childrenOf_def)
  next
    case False
    then show ?thesis using that by (simp add: m' m4 m3)
  qed
  show "map_option (\<lambda>n. (isTextNode n, textOf n)) (nodeMap s' k)
           = map_option (\<lambda>n. (isTextNode n, textOf n)) (nodeMap s k)"
  proof (cases "k = key B")
    case True
    have a: "map_option (\<lambda>n. (isTextNode n, textOf n)) (nodeMap s' k) = Some (False, [])"
      using True by (simp add: m' isTextNode_def textOf_def)
    have b: "map_option (\<lambda>n. (isTextNode n, textOf n)) (nodeMap s4 k) = Some (False, [])"
      using True b4(1) cs by (simp add: isTextNode_def textOf_def)
    show ?thesis using a b kind [of k] by (rule_tac trans [OF a]) (simp only:)
  next
    case False
    then show ?thesis using kind [of k] by (simp add: m')
  qed
  show "selection s' = selection s"
    using b4(1) by (simp add: s' setChildren_def s5_def markLastChild_def Let_def sel4
          split: option.splits)
qed

lemma count_list_remove1_absent:
  "count_list xs x \<le> 1 \<Longrightarrow> x \<notin> set (remove1 x xs)"
  by (induction xs) (auto simp: count_list_0_iff split: if_splits)

text \<open>
  C6, as stated: the key added is that of the last child the block had before the call, iff
  that child is an empty text node. In the example the block has the children \<open>T\<close>, an
  empty text node, and \<open>C\<close>, a text node with content, and \<open>C\<close> is appended to it again:
  the last child before the call is \<open>C\<close>, whose text is not empty, and the call adds the
  key of \<open>T\<close>.
\<close>

theorem append_reappend_marks_previous_sibling:
  "getLastChild envTrail blockTrail = Some (mkText ''C'' (Some ''B'') ''x'' None)
   \<and> textOf (mkText ''C'' (Some ''B'') ''x'' None) \<noteq> []
   \<and> map_sum id dirtySubTrees (appendNode envTrail blockTrail (mkText ''C'' (Some ''B'') ''x'' None))
       = Inr {''T''}"
  by (simp add: getLastChild_def envTrail_def blockTrail_def example_defs read_defs model_defs)

text \<open>
  C6, amended. With the block and the node registered, \<^verbatim>\<open>append\<close> adds to
  \<open>dirtySubTrees\<close> the key of the last child of the block iff that child is a text node
  with empty content, and adds nothing else; the last child is taken from the children
  as they are once the appended node has left its old parent, which are the children
  before the call when the node was not among them. It adds nothing when
  this list is empty, when its last key does not resolve or resolves to a node that is not
  a text node, or to a text node with content.
\<close>

theorem append_marks_trailing_empty_text:
  assumes "appendNode s B C = Inr s'" "registryConsistent s"
    "key B \<in> dom (nodeMap s)" "key C \<in> dom (nodeMap s)"
  shows "dirtySubTrees s' = dirtySubTrees s \<union> trailingEmptyText s (childrenAfterDetach s B C)
     \<and> (key C \<notin> set (childrenOf (getLatest s B)) \<longrightarrow>
            childrenAfterDetach s B C = childrenOf (getLatest s B))"
proof -
  obtain Bv Cv where "nodeMap s (key B) = Some Bv" "nodeMap s (key C) = Some Cv"
    using assms(3,4) by auto
  from append_result(2) [OF assms(2) this assms(1)]
  show ?thesis by (simp add: childrenAfterDetach_def remove1_idem)
qed

text \<open>Witness for C6: a detached node is appended to a block whose only child is an empty
  text node.\<close>

theorem append_marks_trailing_empty_text_witness:
  "registryConsistent envTrailOne
   \<and> key blockTrailOne \<in> dom (nodeMap envTrailOne)
   \<and> key (mkText ''D'' None ''x'' None) \<in> dom (nodeMap envTrailOne)
   \<and> (\<exists>s'. appendNode envTrailOne blockTrailOne (mkText ''D'' None ''x'' None) = Inr s'
          \<and> dirtySubTrees s' = {''T''})"
proof -
  have h2: "registryConsistent envTrailOne"
    unfolding envTrailOne_def
    by (rule registryConsistent_map_of) (simp add: blockTrailOne_def example_defs)
  have h3: "key blockTrailOne \<in> dom (nodeMap envTrailOne)"
    and h4: "key (mkText ''D'' None ''x'' None) \<in> dom (nodeMap envTrailOne)"
    by (simp_all add: envTrailOne_def blockTrailOne_def example_defs)
  have "\<not> isl (appendNode envTrailOne blockTrailOne (mkText ''D'' None ''x'' None))"
    by (simp add: envTrailOne_def blockTrailOne_def example_defs read_defs model_defs)
  then obtain s' where ok: "appendNode envTrailOne blockTrailOne (mkText ''D'' None ''x'' None) = Inr s'"
    by (cases "appendNode envTrailOne blockTrailOne (mkText ''D'' None ''x'' None)") auto
  have t: "dirtySubTrees envTrailOne \<union> trailingEmptyText envTrailOne
             (childrenAfterDetach envTrailOne blockTrailOne (mkText ''D'' None ''x'' None))
           = {''T''}"
    by (simp add: trailingEmptyText_def childrenAfterDetach_def envTrailOne_def
          blockTrailOne_def example_defs read_defs)
  from append_marks_trailing_empty_text [OF ok h2 h3 h4]
  have "dirtySubTrees s' = {''T''}" unfolding t by simp
  then show ?thesis using ok h2 h3 h4 by simp
qed

text \<open>
  C4. In a registry that is a tree around the node \<open>C\<close> (a block that lists the key of
  \<open>C\<close> is its parent and lists it once), after \<^verbatim>\<open>append(B, C)\<close> succeeds the parent
  identifier of \<open>C\<close> is the key of \<open>B\<close>; the children of \<open>B\<close> are its former children
  without the key of \<open>C\<close>, followed by the key of \<open>C\<close>, which is thus there exactly once,
  as the last element, also when \<open>C\<close> was a child of \<open>B\<close> already; and no other block
  lists the key of \<open>C\<close>.
\<close>

theorem append_links_child:
  assumes ok: "appendNode s B C = Inr s'" and rc: "registryConsistent s"
    and lB: "key B \<in> dom (nodeMap s)" and lC: "key C \<in> dom (nodeMap s)"
    and tree: "listedByParentOnly s C"
  shows "parent (getLatest s' C) = Some (key B)
    \<and> childrenOf (getLatest s' B) = remove1 (key C) (childrenOf (getLatest s B)) @ [key C]
    \<and> count_list (childrenOf (getLatest s' B)) (key C) = 1
    \<and> last (childrenOf (getLatest s' B)) = key C
    \<and> (\<forall>k b. nodeMap s' k = Some b \<and> k \<noteq> key B \<longrightarrow> key C \<notin> set (childrenOf b))"
proof -
  obtain Bv Cv where B: "nodeMap s (key B) = Some Bv" and C: "nodeMap s (key C) = Some Cv"
    using lB lC by auto
  note res = append_result [OF rc B C ok]
  have glB: "getLatest s B = Bv" and glC: "getLatest s C = Cv"
    using B C by (simp_all add: getLatest_live)
  have once: "count_list (childrenOf b) (key C) \<le> 1" if "nodeMap s k = Some b" for k b
    using tree that by (cases "key C \<in> set (childrenOf b)")
      (auto simp: listedByParentOnly_def)
  have cad: "childrenAfterDetach s B C = remove1 (key C) (childrenOf Bv)"
  proof (cases "parent Cv = Some (key B)")
    case True
    then show ?thesis by (simp add: childrenAfterDetach_def glB glC)
  next
    case False
    then have "key C \<notin> set (childrenOf Bv)"
      using tree B by (auto simp: listedByParentOnly_def glC)
    then show ?thesis using False by (simp add: childrenAfterDetach_def glB glC remove1_idem)
  qed
  have absent: "key C \<notin> set (remove1 (key C) (childrenOf Bv))"
    using once [OF B] by (rule count_list_remove1_absent)
  obtain b where b: "nodeMap s' (key B) = Some b"
      "cls b = BlockNode (remove1 (key C) (childrenOf Bv) @ [key C])"
    using res(1) cad by auto
  have chB: "childrenOf (getLatest s' B) = remove1 (key C) (childrenOf Bv) @ [key C]"
    using b by (simp add: getLatest_live childrenOf_def)
  obtain c where c: "nodeMap s' (key C) = Some c" "parent c = Some (key B)"
    using res(3) by auto
  have others: "key C \<notin> set (childrenOf x)" if x: "nodeMap s' k = Some x" and k: "k \<noteq> key B" for k x
  proof -
    from res(4) [OF k] x obtain x0 where x0: "detachedMap s Cv k = Some x0"
        "childrenOf x = childrenOf x0"
      by (cases "detachedMap s Cv k") auto
    show ?thesis
    proof (cases "parent Cv = Some k")
      case True
      then obtain x00 where x00: "nodeMap s k = Some x00"
         "x0 = x00\<lparr>cls := BlockNode (remove1 (key Cv) (childrenOf x00))\<rparr>"
        using x0(1) by (auto simp: detachedMap_def)
      have "key Cv = key C" using rc C by (auto simp: registryConsistent_def)
      then show ?thesis
        using count_list_remove1_absent [OF once [OF x00(1)]] x0(2) x00(2)
        by (simp add: childrenOf_def)
    next
      case False
      then have "nodeMap s k = Some x0" using x0(1) by (simp add: detachedMap_def)
      then show ?thesis using tree False x0(2) glC
        by (auto simp: listedByParentOnly_def)
    qed
  qed
  have cnt: "count_list (remove1 (key C) (childrenOf Bv) @ [key C]) (key C) = 1"
    using absent once [OF B] by (simp add: count_list_0_iff)
  have "parent (getLatest s' C) = Some (key B)" using c by (simp add: getLatest_live)
  moreover have "last (childrenOf (getLatest s' B)) = key C" by (simp add: chB)
  moreover have "count_list (childrenOf (getLatest s' B)) (key C) = 1"
    unfolding chB by (rule cnt)
  ultimately show ?thesis using chB others glB by blast
qed

text \<open>Witness for C4: the child \<open>C\<close> of the block \<open>A\<close> is appended to the block \<open>B\<close>.\<close>

lemma listedByParentOnly_envTwoBlocks:
  "listedByParentOnly envTwoBlocks (mkText ''C'' (Some ''A'') ''c'' None)"
  by (auto simp: listedByParentOnly_def envTwoBlocks_def example_defs read_defs
        split: if_splits)

theorem append_links_child_witness:
  "registryConsistent envTwoBlocks
   \<and> key (mkBlock ''B'' None [''X'']) \<in> dom (nodeMap envTwoBlocks)
   \<and> key (mkText ''C'' (Some ''A'') ''c'' None) \<in> dom (nodeMap envTwoBlocks)
   \<and> listedByParentOnly envTwoBlocks (mkText ''C'' (Some ''A'') ''c'' None)
   \<and> (\<exists>s'. appendNode envTwoBlocks (mkBlock ''B'' None [''X'']) (mkText ''C'' (Some ''A'') ''c'' None)
            = Inr s'
          \<and> parent (getLatest s' (mkText ''C'' (Some ''A'') ''c'' None)) = Some ''B''
          \<and> childrenOf (getLatest s' (mkBlock ''B'' None [''X''])) = [''X'', ''C'']
          \<and> (\<forall>k b. nodeMap s' k = Some b \<and> k \<noteq> ''B'' \<longrightarrow> ''C'' \<notin> set (childrenOf b)))"
proof -
  let ?B = "mkBlock ''B'' None [''X'']" and ?C = "mkText ''C'' (Some ''A'') ''c'' None"
  have h2: "registryConsistent envTwoBlocks"
    unfolding envTwoBlocks_def by (rule registryConsistent_map_of) (simp add: example_defs)
  have h3: "key ?B \<in> dom (nodeMap envTwoBlocks)" and h4: "key ?C \<in> dom (nodeMap envTwoBlocks)"
    by (simp_all add: envTwoBlocks_def example_defs)
  note h5 = listedByParentOnly_envTwoBlocks
  have "\<not> isl (appendNode envTwoBlocks ?B ?C)"
    by (simp add: envTwoBlocks_def example_defs read_defs model_defs)
  then obtain s' where ok: "appendNode envTwoBlocks ?B ?C = Inr s'"
    by (cases "appendNode envTwoBlocks ?B ?C") auto
  have b: "remove1 ''C'' (childrenOf (getLatest envTwoBlocks ?B)) @ [''C''] = [''X'', ''C'']"
    and k: "key ?B = ''B''" "key ?C = ''C''"
    by (simp_all add: envTwoBlocks_def example_defs read_defs)
  from append_links_child [OF ok h2 h3 h4 h5]
  have "parent (getLatest s' ?C) = Some ''B''
      \<and> childrenOf (getLatest s' ?B) = [''X'', ''C'']
      \<and> (\<forall>k b. nodeMap s' k = Some b \<and> k \<noteq> ''B'' \<longrightarrow> ''C'' \<notin> set (childrenOf b))"
    unfolding k b by blast
  then show ?thesis using ok h2 h3 h4 h5 by blast
qed

section \<open>Clear\<close>





end
